theory Spec2Isabelle
  imports Complex_Main "HOL-Library.Sublist"
begin

section \<open>The chat controller of react-chart-app/src/components/ChatBot.js\<close>

text \<open>
  The development embeds the second of the two component sources held in
  \<^verbatim>\<open>ChatBot.js\<close> (the one with session persistence and voice input; the first is its
  predecessor and has the same classifier, suggestion generator, renderers and CSV
  export). Pure helpers become HOL functions, the two animated components become
  records with a tick function, and the \<^verbatim>\<open>ChatBot\<close> component becomes a record of
  its React state together with a function \<open>step\<close> that handles one event.
\<close>

subsection \<open>JavaScript strings\<close>

text \<open>
  A JavaScript string is a sequence of UTF-16 code units. The embedding uses
  \<^typ>\<open>string\<close>, whose characters are the code units \<open>0 .. 255\<close> (Latin-1). In that range
  \<^verbatim>\<open>String.prototype.toLowerCase\<close> maps \<open>A .. Z\<close> and \<open>U+00C0 .. U+00DE\<close> (without the
  multiplication sign \<open>U+00D7\<close>) to the code unit 32 above and leaves every other code
  unit alone.
\<close>

definition toLowerChar :: "char \<Rightarrow> char" where
  "toLowerChar c =
     (let n = (of_char c :: nat) in
      if (65 \<le> n \<and> n \<le> 90) \<or> (192 \<le> n \<and> n \<le> 222 \<and> n \<noteq> 215)
      then char_of (n + 32) else c)"

definition toLowerCase :: "string \<Rightarrow> string" where
  "toLowerCase s = map toLowerChar s"

text \<open>
  \<^verbatim>\<open>s.includes(p)\<close>: the search string occurs at some position of \<open>s\<close>; the empty
  search string occurs in every string.
\<close>

fun js_includes :: "string \<Rightarrow> string \<Rightarrow> bool" where
  "js_includes [] p = (p = [])"
| "js_includes (c # cs) p = (prefix p (c # cs) \<or> js_includes cs p)"

text \<open>\<^verbatim>\<open>xs.some(f)\<close>.\<close>

definition some :: "'a list \<Rightarrow> ('a \<Rightarrow> bool) \<Rightarrow> bool" where
  "some xs f = list_ex f xs"

text \<open>
  \<^verbatim>\<open>s.trim()\<close> removes white space and line terminators from both ends; in the
  Latin-1 range these are the code units 9 to 13, 32 and 160.
\<close>

definition isWhiteSpace :: "char \<Rightarrow> bool" where
  "isWhiteSpace c =
     (let n = (of_char c :: nat) in (9 \<le> n \<and> n \<le> 13) \<or> n = 32 \<or> n = 160)"

definition trim :: "string \<Rightarrow> string" where
  "trim s = rev (dropWhile isWhiteSpace (rev (dropWhile isWhiteSpace s)))"

text \<open>\<^verbatim>\<open>xs.join(sep)\<close> on a list of strings.\<close>

fun join :: "string \<Rightarrow> string list \<Rightarrow> string" where
  "join sep [] = []"
| "join sep [x] = x"
| "join sep (x # y # ys) = x @ sep @ join sep (y # ys)"

text \<open>
  How a template literal prints a count: \<^verbatim>\<open>`${n}`\<close> for a natural number \<open>n\<close> below
  \<^verbatim>\<open>1e21\<close> is its decimal numeral. It is used for the record count in the panel
  title only.
\<close>

definition digitChar :: "nat \<Rightarrow> char" where
  "digitChar d = char_of (of_char CHR ''0'' + d)"

fun decimal :: "nat \<Rightarrow> string" where
  "decimal n = (if 9 < n then decimal (n div 10) @ [digitChar (n mod 10)] else [digitChar n])"

declare decimal.simps [simp del]

subsection \<open>Query classification (\<^verbatim>\<open>classifyQuery\<close>)\<close>

datatype behavior = NoSidebar | BriefShow | ShowSidebar | AutoDecide

definition simpleQueries :: "string list" where
  "simpleQueries =
     [''how many'', ''count of'', ''total number'', ''do we have'', ''is there'',
      ''are there'', ''what is the count'', ''how much total'', ''what percentage'']"

definition briefShowQueries :: "string list" where
  "briefShowQueries =
     [''who is'', ''which department has the most'', ''which country has the most'',
      ''top department'', ''highest'', ''lowest'', ''most expensive'', ''cheapest'']"

definition detailedQueries :: "string list" where
  "detailedQueries =
     [''show me'', ''list'', ''display'', ''find users'', ''breakdown'', ''analysis'',
      ''by department'', ''by country'', ''activity'', ''trends'', ''details'']"

definition classifyQuery :: "string \<Rightarrow> behavior" where
  "classifyQuery userQuery =
     (let query = toLowerCase userQuery in
      if some simpleQueries (\<lambda>phrase. js_includes query phrase) then NoSidebar
      else if some briefShowQueries (\<lambda>phrase. js_includes query phrase) then BriefShow
      else if some detailedQueries (\<lambda>phrase. js_includes query phrase) then ShowSidebar
      else AutoDecide)"

subsection \<open>Artifact eligibility (\<^verbatim>\<open>shouldShowArtifact\<close>)\<close>

definition artifactKeywords :: "string list" where
  "artifactKeywords =
     [''export'', ''download'', ''csv'', ''excel'', ''report'', ''full list'',
      ''complete data'']"

text \<open>
  The second argument may be \<^verbatim>\<open>null\<close> or \<^verbatim>\<open>undefined\<close> (\<open>None\<close>); the guard
  \<^verbatim>\<open>results && ...\<close> then yields a falsy value. The result is only ever read for its
  truth value, which is what the function below returns.
\<close>

definition shouldShowArtifact :: "string \<Rightarrow> 'r list option \<Rightarrow> bool" where
  "shouldShowArtifact userQuery results =
     (let query = toLowerCase userQuery in
      some artifactKeywords (\<lambda>keyword. js_includes query keyword) \<or>
      (case results of None \<Rightarrow> False | Some rs \<Rightarrow> length rs > 50))"

subsection \<open>Follow-up suggestions (\<^verbatim>\<open>generateSuggestions\<close>)\<close>

definition indiaSuggestions :: "string list" where
  "indiaSuggestions =
     [''Show me users from other countries'',
      ''What departments do India users work in?'',
      ''How many active users are there in total?'']"

definition departmentSuggestions :: "string list" where
  "departmentSuggestions =
     [''Which department has the most users?'',
      ''Show me user activity by department'',
      ''What licenses do IT department users have?'']"

definition licenseSuggestions :: "string list" where
  "licenseSuggestions =
     [''Show me license utilization rates'',
      ''Which licenses are most expensive?'',
      ''How many unlicensed users do we have?'']"

definition countrySuggestions :: "string list" where
  "countrySuggestions =
     [''Show me user distribution by country'',
      ''Which country has the most active users?'',
      ''What's the average activity per country?'']"

definition activeSuggestions :: "string list" where
  "activeSuggestions =
     [''Show me inactive users'',
      ''What makes a user active vs inactive?'',
      ''Show me user activity trends'']"

definition defaultSuggestions :: "string list" where
  "defaultSuggestions =
     [''How many users do we have by country?'',
      ''Show me license costs by department'',
      ''Which users haven't signed in recently?'']"

text \<open>The parameter \<^verbatim>\<open>hasResults\<close> is accepted and never read.\<close>

definition generateSuggestions :: "string \<Rightarrow> bool \<Rightarrow> string list" where
  "generateSuggestions userQuery hasResults =
     (let query = toLowerCase userQuery in
      if js_includes query ''user'' \<and> js_includes query ''india'' then indiaSuggestions
      else if js_includes query ''department'' then departmentSuggestions
      else if js_includes query ''license'' then licenseSuggestions
      else if js_includes query ''country'' \<or> js_includes query ''countries''
        then countrySuggestions
      else if js_includes query ''active'' then activeSuggestions
      else defaultSuggestions)"

subsection \<open>CSV export (\<^verbatim>\<open>ArtifactView\<close>, \<^verbatim>\<open>downloadCSV\<close>)\<close>

text \<open>
  A result row is a JSON object: its keys in \<^verbatim>\<open>Object.keys\<close> order with their values.
  The values covered are \<^verbatim>\<open>null\<close>, booleans, numbers and strings; a key that a row
  does not have reads as \<^verbatim>\<open>undefined\<close>. The export reads two things of a number:
  whether it is falsy (zero or \<^verbatim>\<open>NaN\<close>) and the text that the builtin
  \<^verbatim>\<open>String\<close> gives for it (a plain numeral, a fraction, or exponent form from
  \<^verbatim>\<open>1e21\<close> on). A number cell \<open>JNum falsy printed\<close> is that pair, so that
  integers, fractions and large numbers are all covered as JavaScript prints them.
\<close>

datatype js_value = JNull | JBool bool | JNum bool string | JStr string

type_synonym row = "(string \<times> js_value) list"

fun truthy :: "js_value \<Rightarrow> bool" where
  "truthy JNull = False"
| "truthy (JBool b) = b"
| "truthy (JNum falsy printed) = (\<not> falsy)"
| "truthy (JStr s) = (s \<noteq> [])"

fun String :: "js_value \<Rightarrow> string" where
  "String JNull = ''null''"
| "String (JBool b) = (if b then ''true'' else ''false'')"
| "String (JNum falsy printed) = printed"
| "String (JStr s) = s"

text \<open>\<^verbatim>\<open>String(row[col] || '')\<close>: a missing or falsy value prints as the empty string.\<close>

definition cellText :: "row \<Rightarrow> string \<Rightarrow> string" where
  "cellText r col =
     (case map_of r col of
        None \<Rightarrow> []
      | Some v \<Rightarrow> if truthy v then String v else [])"

text \<open>\<^verbatim>\<open>s.replace(/"/g, '""')\<close>.\<close>

definition doubleQuotes :: "string \<Rightarrow> string" where
  "doubleQuotes s = concat (map (\<lambda>c. if c = CHR 0x22 then [CHR 0x22, CHR 0x22] else [c]) s)"

definition quoteField :: "string \<Rightarrow> string" where
  "quoteField s = [CHR 0x22] @ doubleQuotes s @ [CHR 0x22]"

definition columns :: "row list \<Rightarrow> string list" where
  "columns data = (case data of [] \<Rightarrow> [] | r # _ \<Rightarrow> map fst r)"

definition csvRows :: "row list \<Rightarrow> string list" where
  "csvRows data =
     map (\<lambda>r. join '','' (map (\<lambda>col. quoteField (cellText r col)) (columns data))) data"

definition csvContent :: "row list \<Rightarrow> string" where
  "csvContent data = join [CHR 0x0A] (join '','' (columns data) # csvRows data)"

text \<open>\<^verbatim>\<open>title.replace(/[^a-zA-Z0-9]/g, '_')\<close> followed by \<^verbatim>\<open>.csv\<close>.\<close>

definition isAlphaNum :: "char \<Rightarrow> bool" where
  "isAlphaNum c =
     (let n = (of_char c :: nat) in
      (97 \<le> n \<and> n \<le> 122) \<or> (65 \<le> n \<and> n \<le> 90) \<or> (48 \<le> n \<and> n \<le> 57))"

definition csvFileName :: "string \<Rightarrow> string" where
  "csvFileName title = map (\<lambda>c. if isAlphaNum c then c else CHR ''_'') title @ ''.csv''"

subsection \<open>Progressive text reveal (\<^verbatim>\<open>TypewriterText\<close>)\<close>

text \<open>
  The component state: the two \<^verbatim>\<open>useState\<close> cells and \<^verbatim>\<open>intervalRef\<close>. A running
  interval is represented by the time of its next firing; \<open>None\<close> is
  \<^verbatim>\<open>intervalRef.current = null\<close>. The effect returns at once for a falsy text, so an
  empty text starts no interval.
\<close>

record typewriter =
  tw_text :: string
  tw_speed :: nat
  displayText :: string
  currentIndex :: nat
  intervalRef :: "nat option"

definition tw_mount :: "string \<Rightarrow> nat \<Rightarrow> nat \<Rightarrow> typewriter" where
  "tw_mount text speed now0 =
     \<lparr>tw_text = text, tw_speed = speed, displayText = [], currentIndex = 0,
      intervalRef = (if text = [] then None else Some (now0 + speed))\<rparr>"

text \<open>
  One firing of the interval: the updater passed to \<^verbatim>\<open>setCurrentIndex\<close>. The second
  component tells whether \<^verbatim>\<open>onCompleteRef.current()\<close> was called.
\<close>

definition tw_tick :: "typewriter \<Rightarrow> typewriter \<times> bool" where
  "tw_tick tw =
     (if currentIndex tw < length (tw_text tw)
      then (tw\<lparr>displayText := take (currentIndex tw + 1) (tw_text tw),
               currentIndex := currentIndex tw + 1,
               intervalRef := map_option (\<lambda>t. t + tw_speed tw) (intervalRef tw)\<rparr>, False)
      else (tw\<lparr>intervalRef := None\<rparr>, True))"

text \<open>
  The whole reveal of one mounted component that is left alone: the display texts it
  sets, the number of interval firings and the number of calls of the completion
  callback, until no interval is pending.
\<close>

function tw_run :: "typewriter \<Rightarrow> string list \<times> nat \<times> nat" where
  "tw_run tw =
     (if intervalRef tw = None then ([], 0, 0)
      else if currentIndex tw < length (tw_text tw)
      then (case tw_run (fst (tw_tick tw)) of
              (ds, n, k) \<Rightarrow> (displayText (fst (tw_tick tw)) # ds, Suc n, k))
      else (case tw_run (fst (tw_tick tw)) of (ds, n, k) \<Rightarrow> (ds, Suc n, Suc k)))"
  by pat_completeness auto
termination
  by (relation "measure (\<lambda>tw. (length (tw_text tw) - currentIndex tw) +
                               (if intervalRef tw = None then 0 else 1))")
     (auto simp: tw_tick_def)

declare tw_run.simps [simp del]

subsection \<open>Progressive table reveal (\<^verbatim>\<open>AnimatedTable\<close>)\<close>

text \<open>
  The two \<^verbatim>\<open>useState\<close> cells, the local variables \<^verbatim>\<open>currentRow\<close> and \<^verbatim>\<open>maxRows\<close> of
  the running effect, and its interval (time of the next firing).
\<close>

record animated_table =
  visibleRows :: nat
  isComplete :: bool
  currentRow :: nat
  maxRows :: nat
  at_interval :: "nat option"

definition at_effect :: "'r list \<Rightarrow> nat \<Rightarrow> animated_table" where
  "at_effect data now0 =
     (if data = []
      then \<lparr>visibleRows = 0, isComplete = False, currentRow = 0, maxRows = 0,
            at_interval = None\<rparr>
      else \<lparr>visibleRows = 0, isComplete = False, currentRow = 0,
            maxRows = min (length data) 50, at_interval = Some (now0 + 100)\<rparr>)"

definition at_tick :: "animated_table \<Rightarrow> animated_table \<times> bool" where
  "at_tick t =
     (if currentRow t < maxRows t
      then (t\<lparr>currentRow := currentRow t + 1, visibleRows := currentRow t + 1,
              at_interval := map_option (\<lambda>d. d + 100) (at_interval t)\<rparr>, False)
      else (t\<lparr>isComplete := True, at_interval := None\<rparr>, True))"

subsection \<open>Messages and the session store\<close>

datatype msg_type = User | Bot

text \<open>
  A message object. Fields that an object may lack are options; \<^verbatim>\<open>isTyping\<close> is only
  ever tested for truth, and a message without it (a user message) reads as not
  typing. Times are milliseconds (\<^verbatim>\<open>Date.now()\<close>); a \<^verbatim>\<open>Date\<close> is the instant it
  denotes.
\<close>

record message =
  m_id :: nat
  m_type :: msg_type
  m_message :: string
  m_timestamp :: nat
  m_processing_time :: "real option"
  m_result_count :: "nat option"
  m_success :: "bool option"
  m_isTyping :: bool
  m_suggestions :: "string list option"

text \<open>
  Of \<^verbatim>\<open>localStorage\<close> the entry under \<^verbatim>\<open>STORAGE_KEYS.MESSAGES\<close> is modelled. The
  builtins \<^verbatim>\<open>JSON.stringify\<close> and \<^verbatim>\<open>JSON.parse\<close> are not code of this repository:
  the entry is kept in parsed form, \<open>JsonArray ms\<close> for the JSON text of the message
  list \<open>ms\<close> (time stamps as ISO-8601 text, which \<^verbatim>\<open>new Date\<close> reads back as the same
  instant), \<open>JsonOther\<close> for the JSON text of a value that is no array and has no
  positive \<^verbatim>\<open>length\<close>, and \<open>Unparseable\<close> for the empty text or a text on which
  \<^verbatim>\<open>JSON.parse\<close> throws. \<open>writable = False\<close> is a store whose \<^verbatim>\<open>setItem\<close> throws
  (quota exceeded, storage disabled).
\<close>

datatype stored = Unparseable | JsonArray "message list" | JsonOther

record local_storage =
  item_messages :: "stored option"
  writable :: bool

datatype loaded = DefaultValue | Parsed "message list" | ParsedOther

definition getStoredData :: "local_storage \<Rightarrow> loaded" where
  "getStoredData st =
     (case item_messages st of
        None \<Rightarrow> DefaultValue
      | Some Unparseable \<Rightarrow> DefaultValue
      | Some (JsonArray parsed) \<Rightarrow> Parsed (map (\<lambda>msg. msg\<lparr>m_isTyping := False\<rparr>) parsed)
      | Some JsonOther \<Rightarrow> ParsedOther)"

definition saveToStorage :: "local_storage \<Rightarrow> message list \<Rightarrow> local_storage" where
  "saveToStorage st data =
     (if writable st then st\<lparr>item_messages := Some (JsonArray data)\<rparr> else st)"

text \<open>\<^verbatim>\<open>xs.slice(-n)\<close>: the last \<open>n\<close> elements.\<close>

definition slice_last :: "nat \<Rightarrow> 'a list \<Rightarrow> 'a list" where
  "slice_last n xs = drop (length xs - n) xs"

text \<open>The body of the persistence effect, run when \<^verbatim>\<open>messages\<close> has changed.\<close>

definition saveMessages :: "message list \<Rightarrow> local_storage \<Rightarrow> local_storage" where
  "saveMessages msgs st =
     (let messagesToSave = filter (\<lambda>m. \<not> m_isTyping m) msgs in
      if length messagesToSave > 0
      then saveToStorage st (slice_last 100 messagesToSave) else st)"

definition greeting :: "nat \<Rightarrow> nat \<Rightarrow> message" where
  "greeting i now0 =
     \<lparr>m_id = i, m_type = Bot,
      m_message = ''Hi! I'm 365 Tune Bot. Ask me questions about your Microsoft 365 data.'',
      m_timestamp = now0, m_processing_time = None, m_result_count = None,
      m_success = None, m_isTyping = False, m_suggestions = None\<rparr>"

text \<open>The initialiser of the \<^verbatim>\<open>messages\<close> state.\<close>

definition initialMessages :: "local_storage \<Rightarrow> nat \<Rightarrow> message list" where
  "initialMessages st now0 =
     (case getStoredData st of
        Parsed stored_msgs \<Rightarrow> if length stored_msgs > 0 then stored_msgs else [greeting 1 now0]
      | _ \<Rightarrow> [greeting 1 now0])"

subsection \<open>The state of the \<^verbatim>\<open>ChatBot\<close> component\<close>

text \<open>The object passed to \<^verbatim>\<open>setSidebarData\<close>.\<close>

record sidebar_data =
  sd_title :: string
  sd_data :: "row list"
  sd_query :: string
  sd_behavior :: behavior
  sd_showArtifact :: bool

text \<open>The body of \<^verbatim>\<open>response.data\<close>; a field the reply lacks is \<open>None\<close>.\<close>

record response =
  r_message :: "string option"
  r_results :: "row list option"
  r_result_count :: "nat option"
  r_processing_time :: "real option"
  r_success :: "bool option"

text \<open>The two callbacks the component hands to \<^verbatim>\<open>setTimeout\<close>.\<close>

datatype timeout_action = AutoClose | SidebarTypingOn

text \<open>
  The \<^verbatim>\<open>useState\<close> cells of the component (voice capture apart), followed by what
  lives outside React state: the clock, the request the suspended \<^verbatim>\<open>sendMessage\<close> is
  awaiting (with the \<^verbatim>\<open>actualMessage\<close> it captured), the pending timeouts of the
  browser (handle, due time, action), the next timer handle, the mounted
  \<^verbatim>\<open>TypewriterText\<close> instances under their React key \<^verbatim>\<open>message.id\<close>, the mounted
  \<^verbatim>\<open>AnimatedTable\<close> and the store.
\<close>

record chat_state =
  messages :: "message list"
  inputMessage :: string
  isLoading :: bool
  typingMessageId :: "nat option"
  sidebarData :: "sidebar_data option"
  sidebarTyping :: bool
  showInitialSuggestions :: bool
  lastUserQuery :: string
  sidebarBehavior :: behavior
  showArtifact :: bool
  autoCloseTimer :: "nat option"
  now :: nat
  pending :: "string option"
  timeouts :: "(nat \<times> nat \<times> timeout_action) list"
  nextHandle :: nat
  typewriters :: "(nat \<times> typewriter) list"
  animatedTable :: "animated_table option"
  storage :: local_storage

subsection \<open>Rendering\<close>

text \<open>
  A render of \<^verbatim>\<open>ChatBot\<close> mounts a \<^verbatim>\<open>TypewriterText\<close> (speed 20) for every bot message
  that is typing and has none yet, keeps the mounted ones (their effect depends on
  \<^verbatim>\<open>[text, speed]\<close> only) and unmounts those whose message no longer types.
\<close>

definition render_typewriters :: "chat_state \<Rightarrow> (nat \<times> typewriter) list" where
  "render_typewriters s =
     map (\<lambda>m. (m_id m,
                case map_of (typewriters s) (m_id m) of
                  Some tw \<Rightarrow> tw
                | None \<Rightarrow> tw_mount (m_message m) 20 (now s)))
         (filter (\<lambda>m. m_type m = Bot \<and> m_isTyping m) (messages s))"

text \<open>
  \<^verbatim>\<open>AnimatedTable\<close> is in the tree when there is sidebar data with at least one row
  and the artifact view is off; \<^verbatim>\<open>sidebarTyping\<close> is not consulted. Its effect
  depends on \<^verbatim>\<open>[data, onComplete]\<close>, and \<^verbatim>\<open>onComplete\<close> is an arrow function created
  by each render of \<^verbatim>\<open>ChatBot\<close>: every such render cleans the effect up and runs it
  again, which resets the rows and starts a new interval.
\<close>

definition render_table :: "chat_state \<Rightarrow> animated_table option" where
  "render_table s =
     (case sidebarData s of
        None \<Rightarrow> None
      | Some d \<Rightarrow>
          if showArtifact s then None
          else if length (sd_data d) > 0 then Some (at_effect (sd_data d) (now s))
          else None)"

definition render :: "chat_state \<Rightarrow> chat_state" where
  "render s = s\<lparr>typewriters := render_typewriters s, animatedTable := render_table s\<rparr>"

text \<open>The persistence effect (dependency \<^verbatim>\<open>[messages]\<close>).\<close>

definition persistEffect :: "chat_state \<Rightarrow> chat_state" where
  "persistEffect s = s\<lparr>storage := saveMessages (messages s) (storage s)\<rparr>"

subsection \<open>Mounting the component\<close>

text \<open>
  The state initialisers, the first render, then the mount effects in source order:
  the persistence effect, and the effect that hides the initial suggestions when
  more than one message is stored.
\<close>

definition init :: "local_storage \<Rightarrow> nat \<Rightarrow> chat_state" where
  "init st now0 =
     (let s0 = \<lparr>messages = initialMessages st now0, inputMessage = [], isLoading = False,
                typingMessageId = None, sidebarData = None, sidebarTyping = False,
                showInitialSuggestions = True, lastUserQuery = [],
                sidebarBehavior = AutoDecide, showArtifact = False, autoCloseTimer = None,
                now = now0, pending = None, timeouts = [], nextHandle = 1,
                typewriters = [], animatedTable = None, storage = st\<rparr>;
          s1 = persistEffect (render s0)
      in case getStoredData (storage s1) of
           Parsed storedMessages \<Rightarrow>
             if length storedMessages > 1 then render (s1\<lparr>showInitialSuggestions := False\<rparr>)
             else s1
         | _ \<Rightarrow> s1)"

subsection \<open>Submitting a query (\<^verbatim>\<open>sendMessage\<close>)\<close>

text \<open>
  \<^verbatim>\<open>setTimeout(f, delay)\<close>: a new positive handle, and the callback due \<open>delay\<close>
  milliseconds from now. \<^verbatim>\<open>clearTimeout(h)\<close> removes it; on a handle that is not
  pending it does nothing.
\<close>

definition setTimeout :: "timeout_action \<Rightarrow> nat \<Rightarrow> chat_state \<Rightarrow> nat \<times> chat_state" where
  "setTimeout act delay s =
     (nextHandle s,
      s\<lparr>timeouts := timeouts s @ [(nextHandle s, now s + delay, act)],
        nextHandle := Suc (nextHandle s)\<rparr>)"

definition clearTimeout :: "nat \<Rightarrow> chat_state \<Rightarrow> chat_state" where
  "clearTimeout h s = s\<lparr>timeouts := filter (\<lambda>(h', due, act). h' \<noteq> h) (timeouts s)\<rparr>"

text \<open>
  The part of \<^verbatim>\<open>sendMessage\<close> up to the \<^verbatim>\<open>await\<close>. The argument is \<open>None\<close> when the
  function is called without one (send button, Enter key).
\<close>

definition sendMessage :: "string option \<Rightarrow> chat_state \<Rightarrow> chat_state" where
  "sendMessage messageToSend s =
     (let actualMessage =
            (case messageToSend of
               None \<Rightarrow> inputMessage s
             | Some m \<Rightarrow> if m = [] then inputMessage s else m)
      in if trim actualMessage = [] \<or> isLoading s then s
         else
           let userMessage =
                 \<lparr>m_id = now s, m_type = User, m_message = actualMessage,
                  m_timestamp = now s, m_processing_time = None, m_result_count = None,
                  m_success = None, m_isTyping = False, m_suggestions = None\<rparr>;
               s1 = s\<lparr>inputMessage := [], isLoading := True,
                      showInitialSuggestions := False, lastUserQuery := actualMessage,
                      messages := messages s @ [userMessage],
                      sidebarData := None, sidebarTyping := False, showArtifact := False\<rparr>;
               s2 = (case autoCloseTimer s of
                       None \<Rightarrow> s1
                     | Some h \<Rightarrow> (clearTimeout h s1)\<lparr>autoCloseTimer := None\<rparr>)
           in persistEffect (render (s2\<lparr>pending := Some actualMessage\<rparr>)))"

definition fallbackText :: string where
  "fallbackText = ''Sorry, I couldn't process your request at the moment.''"

text \<open>\<^verbatim>\<open>if (!botText || botText.trim() === "")\<close>.\<close>

definition botTextOf :: "string option \<Rightarrow> string" where
  "botTextOf botText =
     (case botText of
        None \<Rightarrow> fallbackText
      | Some t \<Rightarrow> if t = [] \<or> trim t = [] then fallbackText else t)"

text \<open>The continuation of \<^verbatim>\<open>sendMessage\<close> when the request resolves.\<close>

definition sendMessage_resolved :: "string \<Rightarrow> response \<Rightarrow> chat_state \<Rightarrow> chat_state" where
  "sendMessage_resolved actualMessage r s =
     (let allResults = (case r_results r of None \<Rightarrow> [] | Some rs \<Rightarrow> rs);
          resultCount =
            (case r_result_count r of
               None \<Rightarrow> length allResults
             | Some n \<Rightarrow> if n = 0 then length allResults else n);
          queryClassification = classifyQuery actualMessage;
          shouldShowArtifactResult = shouldShowArtifact actualMessage (Some allResults);
          s1 =
            (if length allResults > 0 then
               let shouldShowSidebar =
                     (queryClassification = ShowSidebar \<or>
                      (queryClassification = AutoDecide \<and> length allResults \<le> 10) \<or>
                      queryClassification = BriefShow)
               in if shouldShowSidebar \<or> shouldShowArtifactResult then
                    let s' = s\<lparr>sidebarData :=
                                  Some \<lparr>sd_title = ''Query Results ('' @ decimal resultCount
                                                     @ '' records)'',
                                        sd_data = allResults, sd_query = actualMessage,
                                        sd_behavior = queryClassification,
                                        sd_showArtifact = shouldShowArtifactResult\<rparr>,
                                sidebarBehavior := queryClassification,
                                showArtifact := shouldShowArtifactResult,
                                sidebarTyping := False\<rparr>
                    in if queryClassification = BriefShow then
                         (case setTimeout AutoClose 5000 s' of
                            (timer, s'') \<Rightarrow> s''\<lparr>autoCloseTimer := Some timer\<rparr>)
                       else s'
                  else s\<lparr>sidebarData := None\<rparr>
             else s\<lparr>sidebarData := None, showArtifact := False\<rparr>);
          botMessage =
            \<lparr>m_id = now s + 1, m_type = Bot, m_message = botTextOf (r_message r),
             m_timestamp = now s, m_processing_time = r_processing_time r,
             m_result_count = Some resultCount, m_success = r_success r,
             m_isTyping = True,
             m_suggestions = Some (generateSuggestions actualMessage (length allResults > 0))\<rparr>
      in persistEffect (render
           (s1\<lparr>messages := messages s1 @ [botMessage],
               typingMessageId := Some (m_id botMessage),
               isLoading := False, pending := None\<rparr>)))"

text \<open>The \<^verbatim>\<open>catch\<close> branch, with \<^verbatim>\<open>error.message\<close>.\<close>

definition sendMessage_rejected :: "string \<Rightarrow> chat_state \<Rightarrow> chat_state" where
  "sendMessage_rejected error_message s =
     (let errorMessage =
            \<lparr>m_id = now s + 1, m_type = Bot,
             m_message = ''Sorry, I encountered an error: '' @ error_message,
             m_timestamp = now s, m_processing_time = None, m_result_count = None,
             m_success = Some False, m_isTyping = True,
             m_suggestions = Some [''Try asking a different question'',
                                   ''Check your connection'', ''Rephrase your query'']\<rparr>
      in persistEffect (render
           (s\<lparr>messages := messages s @ [errorMessage],
              typingMessageId := Some (m_id errorMessage),
              isLoading := False, pending := None\<rparr>)))"

subsection \<open>Completion of a text reveal (\<^verbatim>\<open>handleTypingComplete\<close>)\<close>

text \<open>
  \<^verbatim>\<open>handleTypingComplete\<close> is the \<^verbatim>\<open>current\<close> value of a \<^verbatim>\<open>useRef\<close> that is never
  assigned again: it stays the function created by the first render, and the
  \<^verbatim>\<open>sidebarData\<close> it tests is the variable of that render, the initial state
  \<^verbatim>\<open>null\<close>.
\<close>

definition captured_sidebarData :: "sidebar_data option" where
  "captured_sidebarData = None"

definition handleTypingComplete :: "nat \<Rightarrow> chat_state \<Rightarrow> chat_state" where
  "handleTypingComplete messageId s =
     (let s1 = s\<lparr>typingMessageId := None,
                 messages := map (\<lambda>msg. if m_id msg = messageId
                                         then msg\<lparr>m_isTyping := False\<rparr> else msg)
                                 (messages s)\<rparr>;
          s2 = (case captured_sidebarData of
                  None \<Rightarrow> s1
                | Some d \<Rightarrow>
                    if length (sd_data d) > 0
                    then snd (setTimeout SidebarTypingOn 300 s1) else s1)
      in persistEffect (render s2))"

subsection \<open>Timers\<close>

definition run_timeout :: "timeout_action \<Rightarrow> chat_state \<Rightarrow> chat_state" where
  "run_timeout act s =
     (case act of
        AutoClose \<Rightarrow> render (s\<lparr>sidebarData := None, showArtifact := False\<rparr>)
      | SidebarTypingOn \<Rightarrow> render (s\<lparr>sidebarTyping := True\<rparr>))"

definition fire_timeouts :: "chat_state \<Rightarrow> chat_state" where
  "fire_timeouts s =
     (let due = filter (\<lambda>(h, t, act). t \<le> now s) (timeouts s);
          s1 = s\<lparr>timeouts := filter (\<lambda>(h, t, act). \<not> t \<le> now s) (timeouts s)\<rparr>
      in foldl (\<lambda>s' (h, t, act). run_timeout act s') s1 due)"

definition fire_typewriter :: "nat \<Rightarrow> chat_state \<Rightarrow> chat_state" where
  "fire_typewriter k s =
     (case map_of (typewriters s) k of
        None \<Rightarrow> s
      | Some tw \<Rightarrow>
          if intervalRef tw = Some (now s) then
            (case tw_tick tw of
               (tw', completed) \<Rightarrow>
                 let s1 = s\<lparr>typewriters :=
                              map (\<lambda>(k', v). if k' = k then (k', tw') else (k', v))
                                  (typewriters s)\<rparr>
                 in if completed then handleTypingComplete k s1 else s1)
          else s)"

definition fire_typewriters :: "chat_state \<Rightarrow> chat_state" where
  "fire_typewriters s = foldl (\<lambda>s' k. fire_typewriter k s') s (map fst (typewriters s))"

text \<open>
  A firing of the table's interval; on completion it calls
  \<^verbatim>\<open>onComplete = () => setSidebarTyping(false)\<close>, which re-renders only if the state
  changes.
\<close>

definition fire_table :: "chat_state \<Rightarrow> chat_state" where
  "fire_table s =
     (case animatedTable s of
        None \<Rightarrow> s
      | Some t \<Rightarrow>
          if at_interval t = Some (now s) then
            (case at_tick t of
               (t', completed) \<Rightarrow>
                 let s1 = s\<lparr>animatedTable := Some t'\<rparr>
                 in if completed \<and> sidebarTyping s1
                    then render (s1\<lparr>sidebarTyping := False\<rparr>) else s1)
          else s)"

text \<open>
  One millisecond passes; the callbacks that are due run: timeouts, then text
  reveals in message order, then the table reveal.
\<close>

definition tick :: "chat_state \<Rightarrow> chat_state" where
  "tick s = fire_table (fire_typewriters (fire_timeouts (s\<lparr>now := now s + 1\<rparr>)))"

subsection \<open>Events\<close>

datatype event =
    SetInput string
  | Send "string option"
  | Reply response
  | Failure string
  | CloseSidebar
  | ToggleArtifact
  | Reload
  | ClearChat
  | Tick

text \<open>
  \<open>SetInput\<close> is \<^verbatim>\<open>setInputMessage\<close> (typing, or a voice transcript); \<open>Reply\<close> and
  \<open>Failure\<close> resume a suspended \<^verbatim>\<open>sendMessage\<close> and are nothing without one;
  \<open>CloseSidebar\<close> and \<open>ToggleArtifact\<close> are buttons that exist only while there is
  sidebar data (the toggle only for artifact-eligible data); \<open>Reload\<close> loads the page
  again; \<open>ClearChat\<close> is a confirmed \<^verbatim>\<open>clearChatHistory\<close>, which removes the stored
  entries and reloads.
\<close>

definition closeSidebar :: "chat_state \<Rightarrow> chat_state" where
  "closeSidebar s =
     (let s1 = s\<lparr>sidebarData := None, sidebarTyping := False, showArtifact := False\<rparr>
      in render (case autoCloseTimer s of
                   None \<Rightarrow> s1
                 | Some h \<Rightarrow> (clearTimeout h s1)\<lparr>autoCloseTimer := None\<rparr>))"

fun step :: "chat_state \<Rightarrow> event \<Rightarrow> chat_state" where
  "step s (SetInput v) = (if v = inputMessage s then s else render (s\<lparr>inputMessage := v\<rparr>))"
| "step s (Send messageToSend) = sendMessage messageToSend s"
| "step s (Reply r) =
     (case pending s of None \<Rightarrow> s | Some actualMessage \<Rightarrow> sendMessage_resolved actualMessage r s)"
| "step s (Failure error_message) =
     (case pending s of None \<Rightarrow> s | Some actualMessage \<Rightarrow> sendMessage_rejected error_message s)"
| "step s CloseSidebar = (case sidebarData s of None \<Rightarrow> s | Some d \<Rightarrow> closeSidebar s)"
| "step s ToggleArtifact =
     (case sidebarData s of
        None \<Rightarrow> s
      | Some d \<Rightarrow> if sd_showArtifact d then render (s\<lparr>showArtifact := \<not> showArtifact s\<rparr>) else s)"
| "step s Reload = init (storage s) (now s)"
| "step s ClearChat = init ((storage s)\<lparr>item_messages := None\<rparr>) (now s)"
| "step s Tick = tick s"

definition run :: "chat_state \<Rightarrow> event list \<Rightarrow> chat_state" where
  "run s evs = foldl step s evs"

subsection \<open>Notions of the specification\<close>

text \<open>
  The specification speaks of a query that contains a phrase, and of a query that
  matches a phrase set once it is lower-cased. These are its words, stated without
  reference to the search the code performs.
\<close>

definition occurs_in :: "string \<Rightarrow> string \<Rightarrow> bool" where
  "occurs_in p s = (\<exists>pre post. s = pre @ p @ post)"

definition matches_any :: "string list \<Rightarrow> string \<Rightarrow> bool" where
  "matches_any phrases userQuery = (\<exists>p \<in> set phrases. occurs_in p (toLowerCase userQuery))"

text \<open>Reading a CSV field body back: every doubled quote stands for one quote.\<close>

fun undoubleQuotes :: "string \<Rightarrow> string" where
  "undoubleQuotes (a # b # cs) =
     (if a = CHR 0x22 \<and> b = CHR 0x22 then a # undoubleQuotes cs
      else a # undoubleQuotes (b # cs))"
| "undoubleQuotes cs = cs"

text \<open>
  The messages in the revealing state, and the event sequences in which the user
  submits a query only when no message is revealing.
\<close>

definition revealing :: "chat_state \<Rightarrow> message list" where
  "revealing s = filter m_isTyping (messages s)"

fun patient :: "chat_state \<Rightarrow> event list \<Rightarrow> bool" where
  "patient s [] = True"
| "patient s (e # es) =
     ((case e of Send m \<Rightarrow> revealing s = [] | _ \<Rightarrow> True) \<and> patient (step s e) es)"

text \<open>
  Two relations used in the proofs: \<open>settles s s'\<close> says that \<open>s'\<close> has the request
  and the number of messages of \<open>s\<close> and no more revealing messages; \<open>one_reveal\<close> is
  the invariant of patient event sequences.
\<close>

definition settles :: "chat_state \<Rightarrow> chat_state \<Rightarrow> bool" where
  "settles s s' \<longleftrightarrow>
     pending s' = pending s \<and> length (messages s') = length (messages s) \<and>
     length (revealing s') \<le> length (revealing s)"

definition one_reveal :: "chat_state \<Rightarrow> bool" where
  "one_reveal s \<longleftrightarrow> length (revealing s) \<le> 1 \<and> (pending s \<noteq> None \<longrightarrow> revealing s = [])"

text \<open>
  The times at which the pending timers fire next, and the states in which none of
  them fires up to a given time.
\<close>

definition dues :: "chat_state \<Rightarrow> nat list" where
  "dues s =
     map (\<lambda>(h, t, act). t) (timeouts s) @
     concat (map (\<lambda>(k, tw). case intervalRef tw of None \<Rightarrow> [] | Some t \<Rightarrow> [t]) (typewriters s)) @
     (case animatedTable s of
        None \<Rightarrow> []
      | Some t \<Rightarrow> (case at_interval t of None \<Rightarrow> [] | Some d \<Rightarrow> [d]))"

definition idle_until :: "nat \<Rightarrow> chat_state \<Rightarrow> bool" where
  "idle_until T s = list_all (\<lambda>d. T < d) (dues s)"

text \<open>
  The panel states of the specification, read off the component state: closed
  without sidebar data, revealing while the table reveal has not completed, open
  otherwise.
\<close>

datatype panel = Closed | Revealing | Open

definition panel_state :: "chat_state \<Rightarrow> panel" where
  "panel_state s =
     (case sidebarData s of
        None \<Rightarrow> Closed
      | Some d \<Rightarrow>
          (case animatedTable s of
             None \<Rightarrow> Open
           | Some t \<Rightarrow> if isComplete t then Open else Revealing))"

text \<open>Concrete sessions used below.\<close>

definition fresh_store :: local_storage where
  "fresh_store = \<lparr>item_messages = None, writable = True\<rparr>"

definition brief_reply :: response where
  "brief_reply = \<lparr>r_message = Some ''Bob'', r_results = Some [[(''name'', JStr ''Bob'')]],
     r_result_count = Some 1, r_processing_time = None, r_success = Some True\<rparr>"

definition brief_replied :: "chat_state" where
  "brief_replied = run (init fresh_store 1000) [Send (Some ''who is the admin''), Reply brief_reply]"

definition asked :: chat_state where
  "asked = step (init fresh_store 1000) (Send (Some ''who is the admin''))"

definition blank_reply :: response where
  "blank_reply = \<lparr>r_message = Some ''  '', r_results = None, r_result_count = None,
     r_processing_time = None, r_success = Some True\<rparr>"

definition list_reply :: response where
  "list_reply = \<lparr>r_message = Some ''Here are the users'',
     r_results = Some [[(''name'', JStr ''Ann'')], [(''name'', JStr ''Bob'')]],
     r_result_count = Some 2, r_processing_time = None, r_success = Some True\<rparr>"

definition listing_replied :: chat_state where
  "listing_replied = run (init fresh_store 1000) [Send (Some ''show me users''), Reply list_reply]"

definition settled_session :: chat_state where
  "settled_session = run (init fresh_store 1000)
     ([Send (Some ''who is the admin''), Reply brief_reply] @ replicate 100 Tick)"

definition overlapping_session :: chat_state where
  "overlapping_session = run (init fresh_store 1000)
     [Send (Some ''show me users''), Reply list_reply, Tick, Tick,
      Send (Some ''list licenses''), Reply list_reply]"

text \<open>
  Events that neither submit a query nor close the panel nor reload the page, and
  the number of milliseconds that pass in a sequence of events.
\<close>

definition quiet :: "event \<Rightarrow> bool" where
  "quiet e = (case e of Tick \<Rightarrow> True | SetInput v \<Rightarrow> True | ToggleArtifact \<Rightarrow> True | _ \<Rightarrow> False)"

fun ticks :: "event list \<Rightarrow> nat" where
  "ticks [] = 0"
| "ticks (e # es) = (case e of Tick \<Rightarrow> Suc (ticks es) | _ \<Rightarrow> ticks es)"

text \<open>
  Relations used in the proofs about the auto-close timer: every pending timeout is
  the one whose handle is stored, and none is pending during a request; a panel
  waiting for its timeout due at \<open>T\<close>; a closed panel with nothing pending; two
  states that agree on the panel and the timers.
\<close>

definition timers_ok :: "chat_state \<Rightarrow> bool" where
  "timers_ok s \<longleftrightarrow>
     (\<forall>(h, t, act) \<in> set (timeouts s). autoCloseTimer s = Some h) \<and>
     (pending s \<noteq> None \<longrightarrow> timeouts s = [])"

definition closing_at :: "nat \<Rightarrow> sidebar_data \<Rightarrow> chat_state \<Rightarrow> bool" where
  "closing_at T d s \<longleftrightarrow>
     (\<exists>h. timeouts s = [(h, T, AutoClose)]) \<and> sidebarData s = Some d \<and>
     pending s = None \<and> now s < T"

definition closed_idle :: "chat_state \<Rightarrow> bool" where
  "closed_idle s \<longleftrightarrow> timeouts s = [] \<and> sidebarData s = None \<and> pending s = None"

definition same_panel :: "chat_state \<Rightarrow> chat_state \<Rightarrow> bool" where
  "same_panel s s' \<longleftrightarrow>
     sidebarData s' = sidebarData s \<and> timeouts s' = timeouts s \<and>
     autoCloseTimer s' = autoCloseTimer s \<and> pending s' = pending s \<and> now s' = now s"

section \<open>Properties\<close>

subsection \<open>Substring search and phrase sets\<close>

lemma js_includes_iff: "js_includes s p \<longleftrightarrow> occurs_in p s"
proof (induction s)
  case Nil
  show ?case by (auto simp: occurs_in_def)
next
  case (Cons c cs)
  have "occurs_in p (c # cs) \<longleftrightarrow> prefix p (c # cs) \<or> occurs_in p cs"
  proof
    assume "occurs_in p (c # cs)"
    then obtain pre post where eq: "c # cs = pre @ p @ post"
      unfolding occurs_in_def by blast
    show "prefix p (c # cs) \<or> occurs_in p cs"
    proof (cases pre)
      case Nil
      with eq show ?thesis by (simp add: prefix_def)
    next
      case (Cons x pre')
      with eq have "cs = pre' @ p @ post" by simp
      then show ?thesis unfolding occurs_in_def by blast
    qed
  next
    assume "prefix p (c # cs) \<or> occurs_in p cs"
    then show "occurs_in p (c # cs)"
    proof
      assume "prefix p (c # cs)"
      then obtain post where "c # cs = [] @ p @ post" by (auto simp: prefix_def)
      then show ?thesis unfolding occurs_in_def by blast
    next
      assume "occurs_in p cs"
      then obtain pre post where "cs = pre @ p @ post" unfolding occurs_in_def by blast
      then have "c # cs = (c # pre) @ p @ post" by simp
      then show ?thesis unfolding occurs_in_def by blast
    qed
  qed
  with Cons show ?case by simp
qed

lemma some_includes_iff:
  "some phrases (\<lambda>phrase. js_includes (toLowerCase q) phrase) \<longleftrightarrow> matches_any phrases q"
  by (simp add: some_def list_ex_iff matches_any_def js_includes_iff)

lemma occurs_in_toLowerCase:
  assumes "occurs_in p s" and "toLowerCase p = p"
  shows "occurs_in p (toLowerCase s)"
proof -
  from assms(1) obtain pre post where "s = pre @ p @ post"
    unfolding occurs_in_def by blast
  then have "toLowerCase s = toLowerCase pre @ toLowerCase p @ toLowerCase post"
    by (simp add: toLowerCase_def)
  with assms(2) show ?thesis unfolding occurs_in_def by metis
qed

lemma how_many_lower: "toLowerCase ''how many'' = ''how many''"
  by code_simp

lemma how_many_simple: "''how many'' \<in> set simpleQueries"
  by (simp add: simpleQueries_def)

subsection \<open>The classifier\<close>

text \<open>
  Claim C3. \<^verbatim>\<open>classifyQuery\<close> lower-cases the query and tests the simple/count set,
  then the superlative/identity set, then the listing/analysis set; the first set
  with a phrase occurring in the query decides, and \<open>AutoDecide\<close> is returned when no
  set matches. Every query containing \<open>how many\<close> is classified \<open>NoSidebar\<close>, and so
  is every query matching both the simple set and the brief-show set.
\<close>

theorem classifyQuery_first_match:
  "classifyQuery q =
     (if matches_any simpleQueries q then NoSidebar
      else if matches_any briefShowQueries q then BriefShow
      else if matches_any detailedQueries q then ShowSidebar
      else AutoDecide)
   \<and> (occurs_in ''how many'' q \<longrightarrow> classifyQuery q = NoSidebar)
   \<and> (matches_any simpleQueries q \<and> matches_any briefShowQueries q
        \<longrightarrow> classifyQuery q = NoSidebar)"
proof -
  have eq: "classifyQuery q =
     (if matches_any simpleQueries q then NoSidebar
      else if matches_any briefShowQueries q then BriefShow
      else if matches_any detailedQueries q then ShowSidebar
      else AutoDecide)"
    by (simp add: classifyQuery_def Let_def some_includes_iff)
  have "matches_any simpleQueries q" if "occurs_in ''how many'' q"
    unfolding matches_any_def
    using occurs_in_toLowerCase [OF that how_many_lower] how_many_simple by blast
  with eq show ?thesis by simp
qed

text \<open>The query \<open>Who is it, how many?\<close> matches both sets and contains \<open>how many\<close>.\<close>

theorem classifyQuery_first_match_witness:
  "occurs_in ''how many'' ''Who is it, how many?''
   \<and> matches_any simpleQueries ''Who is it, how many?''
   \<and> matches_any briefShowQueries ''Who is it, how many?''
   \<and> classifyQuery ''Who is it, how many?'' = NoSidebar"
proof -
  have a: "occurs_in ''how many'' ''Who is it, how many?''"
    unfolding js_includes_iff [symmetric] by code_simp
  have b: "matches_any simpleQueries ''Who is it, how many?''"
    unfolding some_includes_iff [symmetric] by code_simp
  have c: "matches_any briefShowQueries ''Who is it, how many?''"
    unfolding some_includes_iff [symmetric] by code_simp
  from classifyQuery_first_match [of "''Who is it, how many?''"] a b c
  show ?thesis by simp
qed

subsection \<open>Artifact eligibility\<close>

text \<open>
  Claim C6. \<^verbatim>\<open>shouldShowArtifact\<close> holds exactly when a keyword of the fixed list
  occurs in the lower-cased query or the result has more than 50 rows; more than 50
  rows suffice whatever the query.
\<close>

theorem shouldShowArtifact_iff:
  "shouldShowArtifact q (Some rows) = (matches_any artifactKeywords q \<or> length rows > 50)
   \<and> (length rows > 50 \<longrightarrow> shouldShowArtifact q (Some rows))"
  by (simp add: shouldShowArtifact_def Let_def some_includes_iff)

text \<open>Fifty-one rows under a query without any keyword.\<close>

theorem shouldShowArtifact_iff_witness:
  "length (replicate 51 (0::nat)) > 50 \<and> \<not> matches_any artifactKeywords ''who is the admin''
   \<and> shouldShowArtifact ''who is the admin'' (Some (replicate 51 (0::nat)))"
proof -
  have a: "length (replicate 51 (0::nat)) > 50" by simp
  have b: "\<not> matches_any artifactKeywords ''who is the admin''"
    unfolding some_includes_iff [symmetric] by code_simp
  from shouldShowArtifact_iff [of "''who is the admin''" "replicate 51 (0::nat)"] a b
  show ?thesis by blast
qed

subsection \<open>Suggestions\<close>

text \<open>
  Claim C7, as the code has it. \<^verbatim>\<open>generateSuggestions\<close> lower-cases the query and
  tests, in this order, \<open>user\<close> together with \<open>india\<close>, then \<open>department\<close>, then
  \<open>license\<close>, then \<open>country\<close> or \<open>countries\<close>, then \<open>active\<close>; the first test that
  succeeds selects a fixed list, no success selects the default list, and every list
  has three items. A query containing both \<open>country\<close> and \<open>department\<close> (and not
  both \<open>user\<close> and \<open>india\<close>) receives the department list.
\<close>

theorem generateSuggestions_order:
  "generateSuggestions q h =
     (let lq = toLowerCase q in
      if occurs_in ''user'' lq \<and> occurs_in ''india'' lq then indiaSuggestions
      else if occurs_in ''department'' lq then departmentSuggestions
      else if occurs_in ''license'' lq then licenseSuggestions
      else if occurs_in ''country'' lq \<or> occurs_in ''countries'' lq then countrySuggestions
      else if occurs_in ''active'' lq then activeSuggestions
      else defaultSuggestions)
   \<and> length (generateSuggestions q h) = 3
   \<and> (occurs_in ''country'' (toLowerCase q) \<and> occurs_in ''department'' (toLowerCase q)
        \<and> \<not> (occurs_in ''user'' (toLowerCase q) \<and> occurs_in ''india'' (toLowerCase q))
      \<longrightarrow> generateSuggestions q h = departmentSuggestions)"
  by (simp add: generateSuggestions_def Let_def js_includes_iff indiaSuggestions_def
      departmentSuggestions_def licenseSuggestions_def countrySuggestions_def
      activeSuggestions_def defaultSuggestions_def)

text \<open>A query naming country and department, in capitals.\<close>

theorem generateSuggestions_order_witness:
  "occurs_in ''country'' (toLowerCase ''Cost by Country and Department'')
   \<and> occurs_in ''department'' (toLowerCase ''Cost by Country and Department'')
   \<and> \<not> (occurs_in ''user'' (toLowerCase ''Cost by Country and Department'')
        \<and> occurs_in ''india'' (toLowerCase ''Cost by Country and Department''))
   \<and> generateSuggestions ''Cost by Country and Department'' False = departmentSuggestions"
proof -
  have a: "occurs_in ''country'' (toLowerCase ''Cost by Country and Department'')"
    unfolding js_includes_iff [symmetric] by code_simp
  have b: "occurs_in ''department'' (toLowerCase ''Cost by Country and Department'')"
    unfolding js_includes_iff [symmetric] by code_simp
  have c: "\<not> (occurs_in ''user'' (toLowerCase ''Cost by Country and Department'')
        \<and> occurs_in ''india'' (toLowerCase ''Cost by Country and Department''))"
    unfolding js_includes_iff [symmetric] by code_simp
  from generateSuggestions_order [of "''Cost by Country and Department''" False] a b c
  show ?thesis by blast
qed

text \<open>
  The country list is not what a query containing \<open>country\<close> and \<open>department\<close>
  receives, nor what a query containing \<open>user\<close>, \<open>india\<close> and \<open>country\<close> receives.
\<close>

theorem generateSuggestions_country_counterexample:
  "js_includes (toLowerCase ''users by country and department'') ''country''
   \<and> js_includes (toLowerCase ''users by country and department'') ''department''
   \<and> generateSuggestions ''users by country and department'' True \<noteq> countrySuggestions
   \<and> js_includes (toLowerCase ''users in India by country'') ''country''
   \<and> generateSuggestions ''users in India by country'' True \<noteq> countrySuggestions"
  by code_simp

subsection \<open>CSV export\<close>

lemma doubleQuotes_Cons:
  "doubleQuotes (c # s) = (if c = CHR 0x22 then [CHR 0x22, CHR 0x22] else [c]) @ doubleQuotes s"
  by (simp add: doubleQuotes_def)

lemma undoubleQuotes_doubleQuotes: "undoubleQuotes (doubleQuotes s) = s"
proof (induction s)
  case Nil
  show ?case by (simp add: doubleQuotes_def)
next
  case (Cons c s)
  show ?case
  proof (cases "c = CHR 0x22")
    case True
    with Cons show ?thesis by (simp add: doubleQuotes_Cons)
  next
    case False
    show ?thesis
    proof (cases "doubleQuotes s")
      case Nil
      with Cons have "s = []" by simp
      with Nil False show ?thesis by (simp add: doubleQuotes_Cons)
    next
      case (Cons b bs)
      with False have "undoubleQuotes (doubleQuotes (c # s)) = c # undoubleQuotes (doubleQuotes s)"
        by (simp add: doubleQuotes_Cons)
      with Cons.IH show ?thesis by simp
    qed
  qed
qed

lemma count_doubleQuotes:
  "length (filter (\<lambda>c. c = CHR 0x22) (doubleQuotes s))
     = 2 * length (filter (\<lambda>c. c = CHR 0x22) s)"
  by (induction s) (simp_all add: doubleQuotes_Cons, simp add: doubleQuotes_def)

text \<open>
  Claim C9, as the code has it. The CSV text of a payload is the newline-join of a
  header line and one line per payload row, all of them. The header line is the
  column names of the first row joined by commas, the names written as they are.
  A data line is the comma-join of the row's fields under those columns, and it is
  the fields of the data lines that are enclosed in quotes with every quote inside
  them doubled (so that such a field reads back). The file name is the title with
  every character that is not an ASCII letter or digit replaced by an underscore,
  followed by \<open>.csv\<close>.
\<close>

theorem csv_export:
  "csvContent (r # rs) =
     join [CHR 0x0A]
       (join '','' (map fst r) #
        map (\<lambda>row. join '','' (map (\<lambda>col. quoteField (cellText row col)) (map fst r))) (r # rs))
   \<and> length (csvRows (r # rs)) = length (r # rs)
   \<and> quoteField s = [CHR 0x22] @ doubleQuotes s @ [CHR 0x22]
   \<and> undoubleQuotes (doubleQuotes s) = s
   \<and> length (filter (\<lambda>c. c = CHR 0x22) (doubleQuotes s)) = 2 * length (filter (\<lambda>c. c = CHR 0x22) s)
   \<and> csvFileName title = map (\<lambda>c. if isAlphaNum c then c else CHR ''_'') title @ ''.csv''"
  by (simp add: csvContent_def csvRows_def columns_def quoteField_def csvFileName_def
      undoubleQuotes_doubleQuotes count_doubleQuotes)

text \<open>
  The file name of a title is not the title without its non-alphanumeric
  characters; and a header field is not quoted: the column name \<open>a,b\<close> appears in
  the header line as it is, while the data field below it is quoted.
\<close>

theorem csv_export_counterexample:
  "csvFileName ''Query Results (5 records)''
     \<noteq> filter isAlphaNum ''Query Results (5 records)'' @ ''.csv''
   \<and> csvFileName ''Query Results (5 records)'' = ''Query_Results__5_records_.csv''
   \<and> csvContent [[(''a,b'', JStr ''x'')]]
       = [CHR ''a'', CHR '','', CHR ''b'', CHR 0x0A, CHR 0x22, CHR ''x'', CHR 0x22]
   \<and> csvContent [[(''a,b'', JStr ''x'')]]
       \<noteq> quoteField ''a,b'' @ [CHR 0x0A] @ quoteField ''x''"
  by code_simp

subsection \<open>The text reveal\<close>

lemma tw_run_from:
  assumes "intervalRef tw \<noteq> None" and "currentIndex tw \<le> length (tw_text tw)"
  shows "tw_run tw =
           (map (\<lambda>k. take k (tw_text tw)) [Suc (currentIndex tw) ..< Suc (length (tw_text tw))],
            Suc (length (tw_text tw) - currentIndex tw), 1)"
  using assms
proof (induction "length (tw_text tw) - currentIndex tw" arbitrary: tw)
  case 0
  then have fin: "\<not> currentIndex tw < length (tw_text tw)" by simp
  have stop: "tw_run (fst (tw_tick tw)) = ([], 0, 0)"
    using fin by (subst tw_run.simps) (simp add: tw_tick_def)
  from 0 fin stop show ?case
    by (subst tw_run.simps) simp
next
  case (Suc n)
  let ?tw' = "fst (tw_tick tw)"
  from Suc.hyps(2) have lt: "currentIndex tw < length (tw_text tw)" by simp
  then have tw': "tw_text ?tw' = tw_text tw" "currentIndex ?tw' = Suc (currentIndex tw)"
    "intervalRef ?tw' \<noteq> None" "displayText ?tw' = take (Suc (currentIndex tw)) (tw_text tw)"
    using Suc.prems(1) by (auto simp: tw_tick_def)
  have "n = length (tw_text ?tw') - currentIndex ?tw'"
    using Suc.hyps(2) tw' by simp
  moreover have "currentIndex ?tw' \<le> length (tw_text ?tw')" using lt tw' by simp
  ultimately have IH: "tw_run ?tw' =
      (map (\<lambda>k. take k (tw_text tw)) [Suc (Suc (currentIndex tw)) ..< Suc (length (tw_text tw))],
       Suc (length (tw_text tw) - Suc (currentIndex tw)), 1)"
    using Suc.hyps(1) [of ?tw'] tw' by simp
  have upt: "[Suc (currentIndex tw) ..< Suc (length (tw_text tw))]
          = Suc (currentIndex tw) # [Suc (Suc (currentIndex tw)) ..< Suc (length (tw_text tw))]"
    using lt by (simp add: upt_conv_Cons)
  show ?case
    using Suc.prems(1) lt IH tw'(4)
    by (subst tw_run.simps) (simp add: upt Suc_diff_Suc del: upt_Suc)
qed

text \<open>
  Claim C4, as the code has it. For a text of length \<open>L > 0\<close> the reveal sets the
  \<open>L\<close> display texts that are the prefixes of length \<open>1 .. L\<close>, in \<open>L + 1\<close> firings of
  its interval, and calls the completion callback once, on the last firing. For the
  empty text no interval is started: no firing, no display text, and no call of the
  callback.
\<close>

theorem typewriter_reveal:
  "(text \<noteq> [] \<longrightarrow>
      tw_run (tw_mount text speed now0) =
        (map (\<lambda>k. take k text) [1 ..< Suc (length text)], Suc (length text), 1))
   \<and> tw_run (tw_mount [] speed now0) = ([], 0, 0)"
proof -
  have "tw_run (tw_mount text speed now0) =
        (map (\<lambda>k. take k text) [1 ..< Suc (length text)], Suc (length text), 1)"
    if "text \<noteq> []"
    using that tw_run_from [of "tw_mount text speed now0"] by (simp add: tw_mount_def)
  moreover have "tw_run (tw_mount [] speed now0) = ([], 0, 0)"
    by (subst tw_run.simps) (simp add: tw_mount_def)
  ultimately show ?thesis by blast
qed

text \<open>The reveal of \<open>Hi\<close>.\<close>

theorem typewriter_reveal_witness:
  "''Hi'' \<noteq> [] \<and> tw_run (tw_mount ''Hi'' 20 0) = ([''H'', ''Hi''], 3, 1)"
  using typewriter_reveal [of "''Hi''" 20 0] by (simp add: upt_rec)

text \<open>For the empty text the callback is not called once.\<close>

theorem typewriter_reveal_counterexample:
  "snd (snd (tw_run (tw_mount [] 20 0))) \<noteq> 1"
  by (subst tw_run.simps) (simp add: tw_mount_def)

subsection \<open>What the handlers do to the message log\<close>

lemma render_fields [simp]:
  "messages (render s) = messages s" "pending (render s) = pending s"
  "storage (render s) = storage s" "now (render s) = now s"
  "sidebarData (render s) = sidebarData s" "timeouts (render s) = timeouts s"
  "autoCloseTimer (render s) = autoCloseTimer s" "isLoading (render s) = isLoading s"
  "showArtifact (render s) = showArtifact s" "sidebarTyping (render s) = sidebarTyping s"
  "nextHandle (render s) = nextHandle s"
  by (simp_all add: render_def)

lemma persistEffect_fields [simp]:
  "messages (persistEffect s) = messages s" "pending (persistEffect s) = pending s"
  "now (persistEffect s) = now s"
  "sidebarData (persistEffect s) = sidebarData s" "timeouts (persistEffect s) = timeouts s"
  "autoCloseTimer (persistEffect s) = autoCloseTimer s" "isLoading (persistEffect s) = isLoading s"
  "showArtifact (persistEffect s) = showArtifact s" "sidebarTyping (persistEffect s) = sidebarTyping s"
  "nextHandle (persistEffect s) = nextHandle s"
  "typewriters (persistEffect s) = typewriters s" "animatedTable (persistEffect s) = animatedTable s"
  by (simp_all add: persistEffect_def)

lemma init_messages [simp]: "messages (init st t) = initialMessages st t"
  by (simp add: init_def Let_def split: loaded.splits)

lemma init_pending [simp]: "pending (init st t) = None"
  by (simp add: init_def Let_def split: loaded.splits)

lemma initialMessages_finalized: "m \<in> set (initialMessages st t) \<Longrightarrow> \<not> m_isTyping m"
  by (auto simp: initialMessages_def getStoredData_def greeting_def
      split: option.splits stored.splits if_splits)

lemma initialMessages_nonempty: "initialMessages st t \<noteq> []"
  by (auto simp: initialMessages_def split: loaded.splits)

lemma sendMessage_resolved_messages:
  "\<exists>m. messages (sendMessage_resolved q r s) = messages s @ [m]
       \<and> m_message m = botTextOf (r_message r) \<and> m_type m = Bot \<and> m_isTyping m
       \<and> m_id m = now s + 1"
  by (simp add: sendMessage_resolved_def Let_def setTimeout_def split: prod.splits)

lemma sendMessage_resolved_pending [simp]: "pending (sendMessage_resolved q r s) = None"
  by (simp add: sendMessage_resolved_def Let_def)

lemma sendMessage_rejected_messages:
  "\<exists>m. messages (sendMessage_rejected e s) = messages s @ [m] \<and> m_type m = Bot \<and> m_isTyping m"
  by (simp add: sendMessage_rejected_def Let_def)

lemma sendMessage_rejected_pending [simp]: "pending (sendMessage_rejected e s) = None"
  by (simp add: sendMessage_rejected_def Let_def)

lemma sendMessage_messages:
  "sendMessage a s = s \<or>
   (\<exists>m. messages (sendMessage a s) = messages s @ [m] \<and> \<not> m_isTyping m \<and> m_type m = User)"
  by (simp add: sendMessage_def Let_def clearTimeout_def split: option.splits)

lemma handleTypingComplete_messages [simp]:
  "messages (handleTypingComplete k s) =
     map (\<lambda>msg. if m_id msg = k then msg\<lparr>m_isTyping := False\<rparr> else msg) (messages s)"
  by (simp add: handleTypingComplete_def Let_def captured_sidebarData_def)

lemma handleTypingComplete_pending [simp]:
  "pending (handleTypingComplete k s) = pending s"
  by (simp add: handleTypingComplete_def Let_def captured_sidebarData_def)

text \<open>The passing of time changes the log only by completing reveals.\<close>

lemma settles_refl [simp]: "settles s s"
  by (simp add: settles_def)

lemma settles_trans: "settles s s' \<Longrightarrow> settles s' s'' \<Longrightarrow> settles s s''"
  by (auto simp: settles_def)

lemma length_filter_clear:
  "length (filter m_isTyping
     (map (\<lambda>msg. if m_id msg = k then msg\<lparr>m_isTyping := False\<rparr> else msg) ms))
   \<le> length (filter m_isTyping ms)"
  by (induction ms) auto

lemma handleTypingComplete_settles: "settles s (handleTypingComplete k s)"
  using length_filter_clear [of k "messages s"]
  by (simp add: settles_def revealing_def del: filter_map)

lemma settles_same_log:
  "messages s' = messages s \<Longrightarrow> pending s' = pending s \<Longrightarrow> settles s s'"
  by (simp add: settles_def revealing_def)

lemma fire_typewriter_settles: "settles s (fire_typewriter k s)"
proof -
  have "settles s (handleTypingComplete k (s\<lparr>typewriters := tws\<rparr>))" for tws
    using handleTypingComplete_settles [of "s\<lparr>typewriters := tws\<rparr>" k]
    by (simp add: settles_def revealing_def)
  then show ?thesis
    by (auto simp: fire_typewriter_def Let_def settles_same_log
        split: option.splits prod.splits)
qed

lemma foldl_settles:
  assumes "\<And>s k. settles s (f s k)"
  shows "settles s (foldl f s ks)"
proof (induction ks arbitrary: s)
  case Nil
  show ?case by simp
next
  case (Cons k ks)
  from assms [of s k] Cons [of "f s k"] show ?case
    by (auto intro: settles_trans)
qed

lemma fire_typewriters_settles: "settles s (fire_typewriters s)"
  unfolding fire_typewriters_def
  by (rule foldl_settles) (rule fire_typewriter_settles)

lemma run_timeout_settles: "settles s (run_timeout act s)"
  by (cases act) (simp_all add: run_timeout_def settles_same_log)

lemma fire_timeouts_settles: "settles s (fire_timeouts s)"
proof -
  have "settles s' (foldl (\<lambda>s' (h, t, act). run_timeout act s') s' due)" for s' due
    by (rule foldl_settles) (auto simp: run_timeout_settles split: prod.splits)
  moreover have "settles s (s\<lparr>timeouts := ts\<rparr>)" for ts
    by (simp add: settles_same_log)
  ultimately show ?thesis
    unfolding fire_timeouts_def Let_def by (blast intro: settles_trans)
qed

lemma fire_table_settles: "settles s (fire_table s)"
  by (auto simp: fire_table_def Let_def settles_same_log split: option.splits prod.splits)

lemma tick_settles: "settles s (tick s)"
proof -
  have "settles s (s\<lparr>now := now s + 1\<rparr>)" by (simp add: settles_same_log)
  then show ?thesis
    unfolding tick_def
    by (blast intro: settles_trans fire_timeouts_settles fire_typewriters_settles
        fire_table_settles)
qed

subsection \<open>The fallback text\<close>

lemma trim_whitespace:
  assumes "\<forall>c \<in> set t. isWhiteSpace c"
  shows "trim t = []"
proof -
  from assms have a: "dropWhile isWhiteSpace t = []"
    by (induction t) simp_all
  show ?thesis unfolding trim_def a by simp
qed

text \<open>
  Claim C10. When the request resolves and the reply has no message text, or a text
  that is empty or consists of white space only, the assistant message appended to
  the log carries the fixed fallback text.
\<close>

theorem empty_reply_fallback:
  assumes "pending s = Some q"
      and "r_message r = None \<or> (\<exists>t. r_message r = Some t \<and> (\<forall>c \<in> set t. isWhiteSpace c))"
  shows "length (messages (step s (Reply r))) = Suc (length (messages s))
         \<and> m_type (last (messages (step s (Reply r)))) = Bot
         \<and> m_message (last (messages (step s (Reply r)))) = fallbackText"
proof -
  from assms(2) have "botTextOf (r_message r) = fallbackText"
    by (auto simp: botTextOf_def trim_whitespace)
  with sendMessage_resolved_messages [of q r s] assms(1) show ?thesis
    by auto
qed

text \<open>A reply of two blanks to the first query of a fresh session.\<close>

theorem empty_reply_fallback_witness:
  "pending asked = Some ''who is the admin''
   \<and> list_all isWhiteSpace ''  ''
   \<and> r_message blank_reply = Some ''  ''
   \<and> m_message (last (messages (step asked (Reply blank_reply)))) = fallbackText"
proof -
  have a: "pending asked = Some ''who is the admin''"
    by code_simp
  have b: "\<forall>c \<in> set ''  ''. isWhiteSpace c"
    by code_simp
  have c: "r_message blank_reply = Some ''  ''"
    by (simp add: blank_reply_def)
  from b c have d: "r_message blank_reply = None \<or>
      (\<exists>t. r_message blank_reply = Some t \<and> (\<forall>c \<in> set t. isWhiteSpace c))"
    by simp
  from empty_reply_fallback [OF a d] a b c
  show ?thesis by (simp add: list_all_iff)
qed

subsection \<open>The log is never empty\<close>

lemma step_messages_nonempty:
  assumes "messages s \<noteq> []"
  shows "messages (step s e) \<noteq> []"
proof (cases e)
  case (SetInput v)
  with assms show ?thesis by simp
next
  case (Send a)
  with assms sendMessage_messages [of a s] show ?thesis by auto
next
  case (Reply r)
  show ?thesis
  proof (cases "pending s")
    case None
    with Reply assms show ?thesis by simp
  next
    case (Some q)
    with Reply sendMessage_resolved_messages [of q r s] show ?thesis by auto
  qed
next
  case (Failure err)
  show ?thesis
  proof (cases "pending s")
    case None
    with Failure assms show ?thesis by simp
  next
    case (Some q)
    with Failure sendMessage_rejected_messages [of err s] show ?thesis by auto
  qed
next
  case CloseSidebar
  with assms show ?thesis
    by (auto simp: closeSidebar_def Let_def clearTimeout_def split: option.splits)
next
  case ToggleArtifact
  with assms show ?thesis by (auto split: option.splits)
next
  case Reload
  then show ?thesis by (simp add: initialMessages_nonempty)
next
  case ClearChat
  then show ?thesis by (simp add: initialMessages_nonempty)
next
  case Tick
  with assms tick_settles [of s] show ?thesis by (auto simp: settles_def)
qed

lemma run_messages_nonempty: "messages s \<noteq> [] \<Longrightarrow> messages (run s evs) \<noteq> []"
  unfolding run_def
  by (induction evs arbitrary: s) (simp_all add: step_messages_nonempty)

lemma reachable_messages_nonempty: "messages (run (init st t) evs) \<noteq> []"
  by (rule run_messages_nonempty) (simp add: initialMessages_nonempty)

lemma reload_after_save:
  assumes "msgs \<noteq> []" and "\<forall>m \<in> set msgs. \<not> m_isTyping m" and "length msgs \<le> 100"
      and "writable st"
  shows "initialMessages (saveMessages msgs st) t = msgs"
proof -
  from assms(2) have keep: "filter (\<lambda>m. \<not> m_isTyping m) msgs = msgs"
    by (simp add: filter_id_conv)
  from assms(2) have same: "map (\<lambda>msg. msg\<lparr>m_isTyping := False\<rparr>) msgs = msgs"
    by (induction msgs) simp_all
  from assms(1,3,4) show ?thesis
    by (simp add: saveMessages_def keep Let_def saveToStorage_def slice_last_def
        initialMessages_def getStoredData_def same)
qed

text \<open>
  Claim C5. Let the controller be in a state whose \<open>N \<le> 100\<close> messages are all
  finalized, and let the store accept the write. Persisting the log and initialising
  a controller from the store restores the same roles and texts in the same order,
  and no restored message is revealing.
\<close>

theorem session_roundtrip:
  assumes "s = run (init st0 t0) evs"
      and "\<forall>m \<in> set (messages s). \<not> m_isTyping m"
      and "length (messages s) \<le> 100"
      and "writable (storage s)"
  shows "map (\<lambda>m. (m_type m, m_message m)) (messages (init (storage (persistEffect s)) t1))
           = map (\<lambda>m. (m_type m, m_message m)) (messages s)
         \<and> (\<forall>m \<in> set (messages (init (storage (persistEffect s)) t1)). \<not> m_isTyping m)"
proof -
  from assms(1) have "messages s \<noteq> []" by (simp add: reachable_messages_nonempty)
  with assms(2-4) have "initialMessages (saveMessages (messages s) (storage s)) t1 = messages s"
    by (intro reload_after_save)
  with assms(2) show ?thesis by (simp add: persistEffect_def)
qed

subsection \<open>Messages in the revealing state\<close>

lemma settles_one_reveal: "settles s s' \<Longrightarrow> one_reveal s \<Longrightarrow> one_reveal s'"
  by (auto simp: settles_def one_reveal_def)

lemma init_one_reveal: "one_reveal (init st t)"
  by (auto simp: one_reveal_def revealing_def filter_empty_conv initialMessages_finalized)

lemma step_one_reveal:
  assumes "one_reveal s" and "case e of Send m \<Rightarrow> revealing s = [] | _ \<Rightarrow> True"
  shows "one_reveal (step s e)"
proof (cases e)
  case (SetInput v)
  with assms show ?thesis by (simp add: one_reveal_def revealing_def)
next
  case (Send a)
  with assms have "revealing s = []" by simp
  with sendMessage_messages [of a s] assms(1) Send show ?thesis
    by (auto simp: one_reveal_def revealing_def)
next
  case (Reply r)
  show ?thesis
  proof (cases "pending s")
    case None
    with Reply assms show ?thesis by simp
  next
    case (Some q)
    with assms(1) have "revealing s = []" by (simp add: one_reveal_def)
    with sendMessage_resolved_messages [of q r s] Reply Some show ?thesis
      by (auto simp: one_reveal_def revealing_def)
  qed
next
  case (Failure err)
  show ?thesis
  proof (cases "pending s")
    case None
    with Failure assms show ?thesis by simp
  next
    case (Some q)
    with assms(1) have "revealing s = []" by (simp add: one_reveal_def)
    with sendMessage_rejected_messages [of err s] Failure Some show ?thesis
      by (auto simp: one_reveal_def revealing_def)
  qed
next
  case CloseSidebar
  with assms show ?thesis
    by (auto simp: one_reveal_def revealing_def closeSidebar_def Let_def clearTimeout_def
        split: option.splits)
next
  case ToggleArtifact
  with assms show ?thesis
    by (auto simp: one_reveal_def revealing_def split: option.splits)
next
  case Reload
  then show ?thesis by (simp add: init_one_reveal)
next
  case ClearChat
  then show ?thesis by (simp add: init_one_reveal)
next
  case Tick
  with assms(1) tick_settles [of s] show ?thesis
    by (auto intro: settles_one_reveal)
qed

lemma run_one_reveal:
  "one_reveal s \<Longrightarrow> patient s evs \<Longrightarrow> one_reveal (run s evs)"
proof (induction evs arbitrary: s)
  case Nil
  then show ?case by (simp add: run_def)
next
  case (Cons e evs)
  from Cons.prems have "one_reveal (step s e)" by (auto intro: step_one_reveal)
  with Cons.IH [of "step s e"] Cons.prems(2) show ?case by (simp add: run_def)
qed

text \<open>
  Claim C8, as the code has it. In every state reached by a sequence of events in
  which queries are submitted only while no message is revealing, at most one
  message is revealing.
\<close>

theorem one_reveal_when_patient:
  "patient (init st t0) evs \<Longrightarrow> length (revealing (run (init st t0) evs)) \<le> 1"
  using run_one_reveal [OF init_one_reveal] by (simp add: one_reveal_def)

subsection \<open>Idle time\<close>

text \<open>
  While no timer is due the clock is all that changes, so a run of milliseconds can
  be taken in jumps from one firing to the next.
\<close>

lemma foldl_fixed: "(\<And>k. k \<in> set ks \<Longrightarrow> f s k = s) \<Longrightarrow> foldl f s ks = s"
  by (induction ks) simp_all

lemma dues_timeout: "(h, t, act) \<in> set (timeouts s) \<Longrightarrow> t \<in> set (dues s)"
  by (force simp: dues_def)

lemma dues_typewriter:
  "(k, tw) \<in> set (typewriters s) \<Longrightarrow> intervalRef tw = Some t \<Longrightarrow> t \<in> set (dues s)"
  by (force simp: dues_def)

lemma dues_table:
  "animatedTable s = Some t \<Longrightarrow> at_interval t = Some d \<Longrightarrow> d \<in> set (dues s)"
  by (simp add: dues_def)

lemma tick_idle:
  assumes "idle_until (now s + 1) s"
  shows "tick s = s\<lparr>now := now s + 1\<rparr>"
proof -
  let ?s = "s\<lparr>now := now s + 1\<rparr>"
  from assms have all: "\<forall>d \<in> set (dues s). now s + 1 < d"
    by (simp add: idle_until_def list_all_iff)
  from all have to: "\<forall>(h, t, act) \<in> set (timeouts s). now s + 1 < t"
    by (auto dest: dues_timeout)
  from all have tw: "\<forall>(k, tw) \<in> set (typewriters s). \<forall>t. intervalRef tw = Some t \<longrightarrow> now s + 1 < t"
    by (auto dest: dues_typewriter)
  from all have tb: "\<forall>t d. animatedTable s = Some t \<longrightarrow> at_interval t = Some d \<longrightarrow> now s + 1 < d"
    by (auto dest: dues_table)
  from to have "filter (\<lambda>(h, t, act). t \<le> now ?s) (timeouts ?s) = []"
    by (auto simp: filter_empty_conv)
  moreover from to have "filter (\<lambda>(h, t, act). \<not> t \<le> now ?s) (timeouts ?s) = timeouts s"
    by (auto simp: filter_id_conv)
  ultimately have a: "fire_timeouts ?s = ?s"
    by (simp add: fire_timeouts_def)
  have "fire_typewriter k ?s = ?s" for k
  proof (cases "map_of (typewriters s) k")
    case None
    then show ?thesis by (simp add: fire_typewriter_def)
  next
    case (Some w)
    then have "(k, w) \<in> set (typewriters s)" by (rule map_of_SomeD)
    with tw have "intervalRef w \<noteq> Some (now s + 1)" by fastforce
    with Some show ?thesis by (simp add: fire_typewriter_def)
  qed
  then have b: "fire_typewriters ?s = ?s"
    unfolding fire_typewriters_def by (intro foldl_fixed) simp
  from tb have c: "fire_table ?s = ?s"
    by (fastforce simp: fire_table_def split: option.splits)
  show ?thesis unfolding tick_def a b c ..
qed

lemma idle_until_now [simp]: "idle_until T (s\<lparr>now := t\<rparr>) = idle_until T s"
  by (simp add: idle_until_def dues_def)

lemma idle_until_mono: "idle_until T s \<Longrightarrow> T' \<le> T \<Longrightarrow> idle_until T' s"
  by (auto simp: idle_until_def list_all_iff)

lemma run_Cons [simp]: "run s (e # evs) = run (step s e) evs"
  by (simp add: run_def)

lemma run_Nil [simp]: "run s [] = s"
  by (simp add: run_def)

lemma run_append: "run s (evs @ evs') = run (run s evs) evs'"
  by (simp add: run_def)

lemma ticks_idle:
  "idle_until (now s + n) s \<Longrightarrow> run s (replicate n Tick) = s\<lparr>now := now s + n\<rparr>"
proof (induction n arbitrary: s)
  case 0
  show ?case by simp
next
  case (Suc n)
  from Suc.prems have "idle_until (now s + 1) s" by (rule idle_until_mono) simp
  then have t: "tick s = s\<lparr>now := now s + 1\<rparr>" by (rule tick_idle)
  from Suc.prems have "idle_until (now (s\<lparr>now := now s + 1\<rparr>) + n) (s\<lparr>now := now s + 1\<rparr>)"
    by simp
  from Suc.IH [OF this] t show ?case by simp
qed

text \<open>Jump over \<open>k\<close> idle milliseconds, then let the next one pass.\<close>

lemma ticks_jump:
  assumes "idle_until (now s + k) s" and "k < n"
  shows "run s (replicate n Tick) = run (tick (s\<lparr>now := now s + k\<rparr>)) (replicate (n - Suc k) Tick)"
proof -
  from assms(2) have "replicate n Tick = replicate k Tick @ Tick # replicate (n - Suc k) Tick"
    by (metis Suc_diff_Suc add_Suc_right le_add_diff_inverse less_imp_le replicate_Suc replicate_add)
  then show ?thesis
    using ticks_idle [OF assms(1)] by (simp add: run_append)
qed

lemma ticks_next:
  assumes "dues s \<noteq> []" and "now s < min_list (dues s)" and "min_list (dues s) \<le> now s + n"
  shows "run s (replicate n Tick) =
           run (tick (s\<lparr>now := min_list (dues s) - 1\<rparr>))
               (replicate (now s + n - min_list (dues s)) Tick)"
proof -
  let ?m = "min_list (dues s)"
  let ?k = "?m - 1 - now s"
  from assms(1) have "\<forall>d \<in> set (dues s). ?m \<le> d"
    by (simp add: min_list_Min)
  with assms(2) have "idle_until (now s + ?k) s"
    by (auto simp: idle_until_def list_all_iff)
  moreover from assms(2,3) have "?k < n" by arith
  ultimately have "run s (replicate n Tick) =
      run (tick (s\<lparr>now := now s + ?k\<rparr>)) (replicate (n - Suc ?k) Tick)"
    by (rule ticks_jump)
  moreover from assms(2) have "now s + ?k = ?m - 1" by arith
  moreover from assms(2,3) have "n - Suc ?k = now s + n - ?m" by arith
  ultimately show ?thesis by simp
qed

lemma ticks_rest:
  "list_all (\<lambda>d. now s + n < d) (dues s) \<Longrightarrow> run s (replicate n Tick) = s\<lparr>now := now s + n\<rparr>"
  using ticks_idle [of s n] by (simp add: idle_until_def)

lemmas eval_defs = init_def initialMessages_def getStoredData_def greeting_def
  persistEffect_def saveMessages_def saveToStorage_def slice_last_def render_def
  render_typewriters_def render_table_def at_effect_def at_tick_def tw_mount_def tw_tick_def
  sendMessage_def sendMessage_resolved_def sendMessage_rejected_def botTextOf_def
  setTimeout_def clearTimeout_def handleTypingComplete_def captured_sidebarData_def
  run_timeout_def fire_timeouts_def fire_typewriter_def fire_typewriters_def fire_table_def
  tick_def closeSidebar_def Let_def dues_def

subsection \<open>Concrete sessions\<close>

lemma brief_classified: "classifyQuery ''who is the admin'' = BriefShow" by code_simp
lemma brief_no_artifact: "shouldShowArtifact ''who is the admin'' (Some [[(''name'', JStr ''Bob'')]]) = False" by code_simp
lemma brief_suggestions: "generateSuggestions ''who is the admin'' True = defaultSuggestions" by code_simp
lemma decimal_one: "decimal 1 = ''1''" by code_simp
lemma brief_query_trim: "trim ''who is the admin'' \<noteq> []" by code_simp
lemma brief_text_trim: "trim ''Bob'' \<noteq> []" by code_simp

lemmas brief_facts = brief_replied_def brief_reply_def fresh_store_def brief_classified
  brief_no_artifact brief_suggestions decimal_one
  brief_query_trim brief_text_trim

lemma list_facts:
  "classifyQuery ''show me users'' = ShowSidebar"
  "classifyQuery ''list licenses'' = ShowSidebar"
  "shouldShowArtifact ''show me users'' (Some [[(''name'', JStr ''Ann'')], [(''name'', JStr ''Bob'')]]) = False"
  "shouldShowArtifact ''list licenses'' (Some [[(''name'', JStr ''Ann'')], [(''name'', JStr ''Bob'')]]) = False"
  "generateSuggestions ''show me users'' True = defaultSuggestions"
  "generateSuggestions ''list licenses'' True = licenseSuggestions"
  "decimal 2 = ''2''"
  "trim ''show me users'' \<noteq> []"
  "trim ''list licenses'' \<noteq> []"
  "trim ''Here are the users'' \<noteq> []"
  by code_simp+

lemma ticks_replicate [simp]: "ticks (replicate n Tick) = n"
  by (induction n) simp_all

text \<open>A session that follows the rule of the preceding theorem.\<close>

theorem one_reveal_when_patient_witness:
  "patient (init fresh_store 1000) [Send (Some ''show me users''), Reply list_reply, Tick]
   \<and> length (revealing (run (init fresh_store 1000)
                [Send (Some ''show me users''), Reply list_reply, Tick])) \<le> 1"
proof -
  have "patient (init fresh_store 1000) [Send (Some ''show me users''), Reply list_reply, Tick]"
    by (simp add: list_reply_def fresh_store_def list_facts eval_defs revealing_def)
  with one_reveal_when_patient [of fresh_store 1000
      "[Send (Some ''show me users''), Reply list_reply, Tick]"]
  show ?thesis by simp
qed

text \<open>
  A second query submitted and answered two milliseconds after the first reply,
  while that reply is still being revealed, leaves two messages revealing.
\<close>

theorem two_revealing_messages:
  "length (revealing overlapping_session) = 2"
  by (simp add: overlapping_session_def list_reply_def fresh_store_def list_facts eval_defs
      revealing_def)

text \<open>
  A session whose three messages are finalized, persisted and loaded again.
\<close>

theorem session_roundtrip_witness:
  "list_all (\<lambda>m. \<not> m_isTyping m) (messages settled_session)
   \<and> length (messages settled_session) \<le> 100
   \<and> writable (storage settled_session)
   \<and> map (\<lambda>m. (m_type m, m_message m))
         (messages (init (storage (persistEffect settled_session)) 2000))
       = [(Bot, ''Hi! I'm 365 Tune Bot. Ask me questions about your Microsoft 365 data.''),
          (User, ''who is the admin''), (Bot, ''Bob'')]"
proof -
  have fin: "\<forall>m \<in> set (messages settled_session). \<not> m_isTyping m"
    by (simp add: settled_session_def brief_facts eval_defs ticks_next ticks_rest)
  have len: "length (messages settled_session) \<le> 100"
    by (simp add: settled_session_def brief_facts eval_defs ticks_next ticks_rest)
  have w: "writable (storage settled_session)"
    by (simp add: settled_session_def brief_facts eval_defs ticks_next ticks_rest)
  have rt: "map (\<lambda>m. (m_type m, m_message m)) (messages settled_session)
       = [(Bot, ''Hi! I'm 365 Tune Bot. Ask me questions about your Microsoft 365 data.''),
          (User, ''who is the admin''), (Bot, ''Bob'')]"
    by (simp add: settled_session_def brief_facts eval_defs ticks_next ticks_rest)
  from session_roundtrip [OF settled_session_def fin len w, of 2000] fin len w rt
  show ?thesis by (simp add: list_all_iff)
qed

subsection \<open>The table reveal and the text reveal\<close>

text \<open>
  Claim C1 at a concrete session. The query \<open>show me users\<close> is answered with a text
  of 18 characters and two rows. One hundred milliseconds after the reply the bot
  message is still revealing, its text reveal has shown 5 of the 18 characters, and
  the table reveal has already shown its first row: the table reveal runs while the
  text reveal of the same cycle is in progress.
\<close>

theorem table_reveals_during_text_reveal:
  "map m_isTyping (messages (run listing_replied (replicate 100 Tick))) = [False, False, True]
   \<and> map (\<lambda>(k, tw). (currentIndex tw, length (tw_text tw)))
         (typewriters (run listing_replied (replicate 100 Tick))) = [(5, 18)]
   \<and> map_option visibleRows (animatedTable (run listing_replied (replicate 100 Tick))) = Some 1"
  by (simp add: listing_replied_def list_reply_def fresh_store_def list_facts eval_defs
      ticks_next ticks_rest)

subsection \<open>The auto-close timer\<close>

lemma same_panel_refl [simp]: "same_panel s s"
  by (simp add: same_panel_def)

lemma same_panel_trans: "same_panel s s' \<Longrightarrow> same_panel s' s'' \<Longrightarrow> same_panel s s''"
  by (simp add: same_panel_def)

lemma foldl_same_panel:
  assumes "\<And>s k. same_panel s (f s k)"
  shows "same_panel s (foldl f s ks)"
proof (induction ks arbitrary: s)
  case Nil
  show ?case by simp
next
  case (Cons k ks)
  from assms [of s k] Cons [of "f s k"] show ?case
    by (auto intro: same_panel_trans)
qed

lemma handleTypingComplete_same_panel: "same_panel s (handleTypingComplete k s)"
  by (simp add: same_panel_def handleTypingComplete_def Let_def captured_sidebarData_def)

lemma fire_typewriter_same_panel: "same_panel s (fire_typewriter k s)"
proof -
  have "same_panel s (handleTypingComplete k (s\<lparr>typewriters := tws\<rparr>))" for tws
    using handleTypingComplete_same_panel [of "s\<lparr>typewriters := tws\<rparr>" k]
    by (simp add: same_panel_def)
  then show ?thesis
    by (auto simp: fire_typewriter_def Let_def same_panel_def
        split: option.splits prod.splits)
qed

lemma fire_typewriters_same_panel: "same_panel s (fire_typewriters s)"
  unfolding fire_typewriters_def
  by (rule foldl_same_panel) (rule fire_typewriter_same_panel)

lemma fire_table_same_panel: "same_panel s (fire_table s)"
  by (auto simp: fire_table_def Let_def same_panel_def split: option.splits prod.splits)

lemma reveals_same_panel: "same_panel s (fire_table (fire_typewriters s))"
  by (blast intro: same_panel_trans fire_typewriters_same_panel fire_table_same_panel)

lemma fire_timeouts_none:
  assumes "\<forall>(h, t, act) \<in> set (timeouts s). now s < t"
  shows "fire_timeouts s = s"
proof -
  from assms have "filter (\<lambda>(h, t, act). t \<le> now s) (timeouts s) = []"
    by (auto simp: filter_empty_conv)
  moreover from assms have "filter (\<lambda>(h, t, act). \<not> t \<le> now s) (timeouts s) = timeouts s"
    by (auto simp: filter_id_conv)
  ultimately show ?thesis by (simp add: fire_timeouts_def)
qed

lemma fire_timeouts_fields:
  "timeouts (fire_timeouts s) = filter (\<lambda>(h, t, act). \<not> t \<le> now s) (timeouts s)"
  "autoCloseTimer (fire_timeouts s) = autoCloseTimer s"
  "pending (fire_timeouts s) = pending s"
  "now (fire_timeouts s) = now s"
proof -
  have keep: "timeouts (foldl (\<lambda>s' (h, t, act). run_timeout act s') s' due) = timeouts s'
      \<and> autoCloseTimer (foldl (\<lambda>s' (h, t, act). run_timeout act s') s' due) = autoCloseTimer s'
      \<and> pending (foldl (\<lambda>s' (h, t, act). run_timeout act s') s' due) = pending s'
      \<and> now (foldl (\<lambda>s' (h, t, act). run_timeout act s') s' due) = now s'"
    for s' and due :: "(nat \<times> nat \<times> timeout_action) list"
    by (induction due arbitrary: s')
       (auto simp: run_timeout_def split: timeout_action.splits)
  show "timeouts (fire_timeouts s) = filter (\<lambda>(h, t, act). \<not> t \<le> now s) (timeouts s)"
    "autoCloseTimer (fire_timeouts s) = autoCloseTimer s"
    "pending (fire_timeouts s) = pending s"
    "now (fire_timeouts s) = now s"
    by (simp_all add: fire_timeouts_def Let_def keep)
qed

lemma tick_fields:
  "timeouts (tick s) = filter (\<lambda>(h, t, act). \<not> t \<le> now s + 1) (timeouts s)"
  "autoCloseTimer (tick s) = autoCloseTimer s"
  "pending (tick s) = pending s"
  "now (tick s) = now s + 1"
  using reveals_same_panel [of "fire_timeouts (s\<lparr>now := now s + 1\<rparr>)"]
  by (simp_all add: tick_def same_panel_def fire_timeouts_fields)

lemma tick_sidebar_kept:
  assumes "\<forall>(h, t, act) \<in> set (timeouts s). now s + 1 < t"
  shows "sidebarData (tick s) = sidebarData s"
proof -
  from assms have "fire_timeouts (s\<lparr>now := now s + 1\<rparr>) = s\<lparr>now := now s + 1\<rparr>"
    by (intro fire_timeouts_none) simp
  with reveals_same_panel [of "s\<lparr>now := now s + 1\<rparr>"] show ?thesis
    by (simp add: tick_def same_panel_def)
qed

lemma tick_sidebar_closed:
  assumes "timeouts s = [(h, T, AutoClose)]" and "T \<le> now s + 1"
  shows "sidebarData (tick s) = None"
proof -
  from assms have "sidebarData (fire_timeouts (s\<lparr>now := now s + 1\<rparr>)) = None"
    by (simp add: fire_timeouts_def run_timeout_def)
  with reveals_same_panel [of "fire_timeouts (s\<lparr>now := now s + 1\<rparr>)"] show ?thesis
    by (simp add: tick_def same_panel_def)
qed

text \<open>Pending timeouts belong to the stored handle.\<close>

lemma init_timers [simp]: "timeouts (init st t) = []"
  by (simp add: init_def Let_def split: loaded.splits)

lemma init_timers_ok: "timers_ok (init st t)"
  by (simp add: timers_ok_def)

lemma timers_ok_no_handle:
  assumes "timers_ok s" and "autoCloseTimer s = None"
  shows "timeouts s = []"
proof (cases "timeouts s")
  case Nil
  then show ?thesis .
next
  case (Cons x xs)
  with assms show ?thesis by (cases x) (auto simp: timers_ok_def)
qed

lemma timers_ok_cleared:
  assumes "timers_ok s" and "autoCloseTimer s = Some h"
  shows "filter (\<lambda>(h', due, act). h' \<noteq> h) (timeouts s) = []"
  using assms by (auto simp: timers_ok_def filter_empty_conv)

lemma sendMessage_timers_ok:
  assumes "timers_ok s"
  shows "timers_ok (sendMessage a s)"
proof (cases "autoCloseTimer s")
  case None
  with assms have "timeouts s = []" by (rule timers_ok_no_handle)
  with None assms show ?thesis
    by (simp add: timers_ok_def sendMessage_def Let_def)
next
  case (Some h)
  with assms have "filter (\<lambda>(h', due, act). h' \<noteq> h) (timeouts s) = []"
    by (rule timers_ok_cleared)
  with Some assms show ?thesis
    by (simp add: timers_ok_def sendMessage_def Let_def clearTimeout_def)
qed

lemma closeSidebar_timers_ok:
  assumes "timers_ok s"
  shows "timers_ok (closeSidebar s)"
proof (cases "autoCloseTimer s")
  case None
  with assms have "timeouts s = []" by (rule timers_ok_no_handle)
  with None assms show ?thesis
    by (simp add: timers_ok_def closeSidebar_def Let_def)
next
  case (Some h)
  with assms have "filter (\<lambda>(h', due, act). h' \<noteq> h) (timeouts s) = []"
    by (rule timers_ok_cleared)
  with Some assms show ?thesis
    by (simp add: timers_ok_def closeSidebar_def Let_def clearTimeout_def)
qed

lemma sendMessage_resolved_timers_ok:
  "timers_ok s \<Longrightarrow> pending s = Some q \<Longrightarrow> timers_ok (sendMessage_resolved q r s)"
  by (auto simp: timers_ok_def sendMessage_resolved_def Let_def setTimeout_def)

lemma sendMessage_rejected_timers_ok:
  "timers_ok s \<Longrightarrow> pending s = Some q \<Longrightarrow> timers_ok (sendMessage_rejected e s)"
  by (auto simp: timers_ok_def sendMessage_rejected_def Let_def)

lemma tick_timers_ok: "timers_ok s \<Longrightarrow> timers_ok (tick s)"
  by (auto simp: timers_ok_def tick_fields)

lemma step_timers_ok: "timers_ok s \<Longrightarrow> timers_ok (step s e)"
proof (cases e)
  case (SetInput v)
  assume "timers_ok s"
  with SetInput show ?thesis by (simp add: timers_ok_def)
next
  case (Send a)
  assume "timers_ok s"
  with Send show ?thesis by (simp add: sendMessage_timers_ok)
next
  case (Reply r)
  assume "timers_ok s"
  with Reply show ?thesis
    by (cases "pending s") (simp_all add: sendMessage_resolved_timers_ok)
next
  case (Failure err)
  assume "timers_ok s"
  with Failure show ?thesis
    by (cases "pending s") (simp_all add: sendMessage_rejected_timers_ok)
next
  case CloseSidebar
  assume "timers_ok s"
  with CloseSidebar show ?thesis
    by (cases "sidebarData s") (simp_all add: closeSidebar_timers_ok)
next
  case ToggleArtifact
  assume "timers_ok s"
  with ToggleArtifact show ?thesis
    by (auto simp: timers_ok_def split: option.splits)
next
  case Reload
  then show ?thesis by (simp add: init_timers_ok)
next
  case ClearChat
  then show ?thesis by (simp add: init_timers_ok)
next
  case Tick
  assume "timers_ok s"
  with Tick show ?thesis by (simp add: tick_timers_ok)
qed

lemma run_timers_ok: "timers_ok s \<Longrightarrow> timers_ok (run s evs)"
  unfolding run_def
  by (induction evs arbitrary: s) (simp_all add: step_timers_ok)

text \<open>From the reply to the firing of the timer.\<close>

lemma reply_starts_timer:
  assumes "timers_ok s" and "pending s = Some q" and "classifyQuery q = BriefShow"
      and "r_results r = Some rows" and "rows \<noteq> []"
  shows "\<exists>d. closing_at (now s + 5000) d (step s (Reply r))"
proof -
  from assms(1,2) have "timeouts s = []" by (simp add: timers_ok_def)
  with assms(2-5) show ?thesis
    by (simp add: closing_at_def sendMessage_resolved_def Let_def setTimeout_def)
qed

lemma quiet_step_closing:
  assumes "closing_at T d s" and "quiet e"
  shows "(case e of Tick \<Rightarrow> if now s + 1 < T then closing_at T d (step s e)
                              else closed_idle (step s e)
         | _ \<Rightarrow> closing_at T d (step s e))"
proof (cases e)
  case Tick
  from assms(1) obtain h where h: "timeouts s = [(h, T, AutoClose)]"
    and d: "sidebarData s = Some d" and p: "pending s = None" and n: "now s < T"
    by (auto simp: closing_at_def)
  show ?thesis
  proof (cases "now s + 1 < T")
    case True
    with h have "sidebarData (tick s) = sidebarData s"
      by (intro tick_sidebar_kept) simp
    with True h d p Tick show ?thesis
      by (simp add: closing_at_def tick_fields)
  next
    case False
    with h have "sidebarData (tick s) = None"
      by (intro tick_sidebar_closed [of s h T]) simp_all
    with False h p Tick show ?thesis
      by (simp add: closed_idle_def tick_fields)
  qed
next
  case (SetInput v)
  with assms(1) show ?thesis by (simp add: closing_at_def)
next
  case ToggleArtifact
  with assms(1) show ?thesis by (auto simp: closing_at_def)
qed (use assms(2) in \<open>simp_all add: quiet_def\<close>)

lemma quiet_step_closed:
  assumes "closed_idle s" and "quiet e"
  shows "closed_idle (step s e)"
proof (cases e)
  case Tick
  from assms(1) have "sidebarData (tick s) = sidebarData s"
    by (intro tick_sidebar_kept) (simp add: closed_idle_def)
  with assms(1) Tick show ?thesis by (simp add: closed_idle_def tick_fields)
next
  case (SetInput v)
  with assms(1) show ?thesis by (simp add: closed_idle_def)
next
  case ToggleArtifact
  with assms(1) show ?thesis by (simp add: closed_idle_def)
qed (use assms(2) in \<open>simp_all add: quiet_def\<close>)

lemma quiet_run_closed:
  "closed_idle s \<Longrightarrow> \<forall>e \<in> set evs. quiet e \<Longrightarrow> closed_idle (run s evs)"
  by (induction evs arbitrary: s) (simp_all add: quiet_step_closed)

lemma quiet_run_closing:
  assumes "closing_at T d s" and "\<forall>e \<in> set evs. quiet e"
  shows "(now s + ticks evs < T \<longrightarrow> closing_at T d (run s evs)) \<and>
         (T \<le> now s + ticks evs \<longrightarrow> closed_idle (run s evs))"
  using assms
proof (induction evs arbitrary: s)
  case Nil
  then show ?case by (simp add: closing_at_def)
next
  case (Cons e evs)
  from Cons.prems have q: "quiet e" and qs: "\<forall>e \<in> set evs. quiet e" by simp_all
  note st = quiet_step_closing [OF Cons.prems(1) q]
  show ?case
  proof (cases e)
    case Tick
    show ?thesis
    proof (cases "now s + 1 < T")
      case True
      with st Tick have c: "closing_at T d (step s e)" by simp
      have "now (step s e) = now s + 1" using Tick by (simp add: tick_fields)
      with Cons.IH [OF c qs] Tick show ?thesis by simp
    next
      case False
      with st Tick have "closed_idle (step s e)" by simp
      then have "closed_idle (run (step s e) evs)" using qs by (rule quiet_run_closed)
      with False Tick show ?thesis by simp
    qed
  next
    case (SetInput v)
    with st have c: "closing_at T d (step s e)" by simp
    have "now (step s e) = now s" using SetInput by simp
    with Cons.IH [OF c qs] SetInput show ?thesis by simp
  next
    case ToggleArtifact
    with st have c: "closing_at T d (step s e)" by simp
    have "now (step s e) = now s" using ToggleArtifact by (simp split: option.splits)
    with Cons.IH [OF c qs] ToggleArtifact show ?thesis by simp
  qed (use q in \<open>simp_all add: quiet_def\<close>)
qed

text \<open>
  Claim C2, as the code has it. When the reply to a brief-show query carries at
  least one row, the panel payload is attached by the reply handler and the timer
  starts there: as long as fewer than 5000 milliseconds have passed since the reply
  and the user neither submits a query, closes the panel nor reloads, the payload
  stays; once 5000 milliseconds have passed it is cleared.
\<close>

theorem auto_close_after_reply:
  assumes "s = run (init st t0) evs0" and "pending s = Some q"
      and "classifyQuery q = BriefShow"
      and "r_results r = Some rows" and "rows \<noteq> []"
      and "\<forall>e \<in> set evs. quiet e"
  shows "sidebarData (step s (Reply r)) \<noteq> None
       \<and> (ticks evs < 5000 \<longrightarrow>
            sidebarData (run (step s (Reply r)) evs) = sidebarData (step s (Reply r)))
       \<and> (5000 \<le> ticks evs \<longrightarrow> sidebarData (run (step s (Reply r)) evs) = None)"
proof -
  from assms(1) have "timers_ok s" by (simp add: run_timers_ok init_timers_ok)
  from reply_starts_timer [OF this assms(2-5)]
  obtain d where c: "closing_at (now s + 5000) d (step s (Reply r))" by blast
  have n: "now (step s (Reply r)) = now s"
    using assms(2) by (simp add: sendMessage_resolved_def Let_def setTimeout_def)
  from quiet_run_closing [OF c assms(6)] n c show ?thesis
    by (auto simp: closing_at_def closed_idle_def)
qed

text \<open>The query \<open>who is the admin\<close>, answered with one row, and 5000 milliseconds.\<close>

theorem auto_close_after_reply_witness:
  "pending (run (init fresh_store 1000) [Send (Some ''who is the admin'')]) = Some ''who is the admin''
   \<and> classifyQuery ''who is the admin'' = BriefShow
   \<and> list_all quiet (replicate 5000 Tick)
   \<and> 5000 \<le> ticks (replicate 5000 Tick)
   \<and> sidebarData (step (run (init fresh_store 1000) [Send (Some ''who is the admin'')])
                       (Reply brief_reply)) \<noteq> None
   \<and> sidebarData (run (step (run (init fresh_store 1000) [Send (Some ''who is the admin'')])
                             (Reply brief_reply))
                       (replicate 5000 Tick)) = None"
proof -
  have a: "pending (run (init fresh_store 1000) [Send (Some ''who is the admin'')])
             = Some ''who is the admin''"
    by (simp add: brief_facts eval_defs)
  have b: "classifyQuery ''who is the admin'' = BriefShow"
    by code_simp
  have c: "r_results brief_reply = Some [[(''name'', JStr ''Bob'')]]"
    by (simp add: brief_reply_def)
  have d: "[[(''name'', JStr ''Bob'')]] \<noteq> []"
    by simp
  have e: "\<forall>e \<in> set (replicate 5000 Tick). quiet e"
    by (simp add: quiet_def)
  from auto_close_after_reply [OF refl a b c d e] a b e
  show ?thesis by (simp add: list_all_iff)
qed

text \<open>
  In that session the table reveal completes 280 milliseconds after the reply, which
  is when the panel is open in the sense of the specification; the panel is closed
  4720 milliseconds later, not 5000.
\<close>

theorem auto_close_counterexample:
  "panel_state (run brief_replied (replicate 279 Tick)) = Revealing
   \<and> panel_state (run brief_replied (replicate 280 Tick)) = Open
   \<and> panel_state (run brief_replied (replicate (280 + 4719) Tick)) = Open
   \<and> panel_state (run brief_replied (replicate (280 + 4720) Tick)) = Closed"
  by (simp add: brief_facts eval_defs ticks_next ticks_rest panel_state_def)

end
